theory Spec2Isabelle
  imports Main "HOL-Library.Word"
begin

unbundle bit_operations_syntax

section \<open>Machine integers\<close>

text \<open>
  The validation code works on fixed-width integers.  An \<open>int\<close>, \<open>int32_t\<close> and an
  \<open>int64_t\<close> are words read in two's complement (\<open>sint\<close>, \<open>\<le>s\<close>, \<open><s\<close>); a
  \<open>uint32_t\<close> / \<open>unsigned int\<close> is a word read unsigned (\<open>uint\<close>, \<open>\<le>\<close>, \<open><\<close>).
  A conversion \<open>(int64_t) u\<close> of an unsigned 32-bit value is \<open>ucast\<close>, of a signed one
  \<open>scast\<close>.  \<open>std::max\<close> on signed operands is \<open>smax\<close>.
\<close>

type_synonym uint32 = "32 word"
type_synonym int32 = "32 word"
type_synonym int64 = "64 word"
type_synonym uint256 = "256 word"

definition smax :: "'a::len word \<Rightarrow> 'a word \<Rightarrow> 'a word" where
  "smax a b = (if a <s b then b else a)"

section \<open>Transactions\<close>

text \<open>
  The classes \<open>COutPoint\<close>, \<open>CTxIn\<close>, \<open>CTxOut\<close> and \<open>CTransaction\<close> are declared outside
  the two source files; the records below carry the members that \<open>main.cpp\<close> reads.
\<close>

type_synonym CScript = "8 word list"

record COutPoint =
  hash :: uint256
  n :: uint32

record CTxIn =
  prevout :: COutPoint
  scriptSig :: CScript
  nSequence :: uint32

record CTxOut =
  nValue :: int64
  scriptPubKey :: CScript

record CTransaction =
  nVersion :: int32
  nTime :: uint32
  vin :: "CTxIn list"
  vout :: "CTxOut list"
  nLockTime :: uint32
  serviceReferenceHash :: uint256

text \<open>
  Named constants that \<open>main.cpp\<close> uses and other headers define.  Their values are not
  part of the two source files, so every function below takes them as a parameter and
  every theorem holds for all values.
\<close>

record constants =
  LOCKTIME_THRESHOLD :: uint32
  LOCKTIME_VERIFY_SEQUENCE :: uint32
  SEQUENCE_FINAL :: uint32
  SEQUENCE_LOCKTIME_DISABLE_FLAG :: uint32
  SEQUENCE_LOCKTIME_TYPE_FLAG :: uint32
  SEQUENCE_LOCKTIME_MASK :: uint32
  SEQUENCE_LOCKTIME_GRANULARITY :: nat
  COINBASE_MATURITY :: int32
  MAX_MONEY :: int64
  DEFAULT_TRANSACTION_MINFEE :: int64
  LOCKTIME_MEDIAN_TIME_PAST :: uint32
  STANDARD_LOCKTIME_VERIFY_FLAGS :: int32
  MEMPOOL_HEIGHT :: uint32
  STANDARD_SCRIPT_VERIFY_FLAGS :: uint32
  MANDATORY_SCRIPT_VERIFY_FLAGS :: uint32
  STANDARD_NOT_MANDATORY_VERIFY_FLAGS :: uint32
  MAX_STANDARD_TX_SIGOPS :: uint32
  MAX_BLOCK_SIZE :: uint32
  MAX_BLOCK_SIGOPS :: uint32
  DATABASE_WRITE_INTERVAL :: uint32
  DATABASE_FLUSH_INTERVAL :: uint32
  nMinDiskSpace :: "64 word"

text \<open>Values for concrete runs.\<close>

definition example_consts :: constants where
  "example_consts =
     \<lparr> LOCKTIME_THRESHOLD = 500000000,
       LOCKTIME_VERIFY_SEQUENCE = 1,
       SEQUENCE_FINAL = 0xffffffff,
       SEQUENCE_LOCKTIME_DISABLE_FLAG = 0x80000000,
       SEQUENCE_LOCKTIME_TYPE_FLAG = 0x00400000,
       SEQUENCE_LOCKTIME_MASK = 0x0000ffff,
       SEQUENCE_LOCKTIME_GRANULARITY = 9,
       COINBASE_MATURITY = 30,
       MAX_MONEY = 2500000000000000,
       DEFAULT_TRANSACTION_MINFEE = 1000,
       LOCKTIME_MEDIAN_TIME_PAST = 2,
       STANDARD_LOCKTIME_VERIFY_FLAGS = 3,
       MEMPOOL_HEIGHT = 0x7FFFFFFF,
       STANDARD_SCRIPT_VERIFY_FLAGS = 0x1FF,
       MANDATORY_SCRIPT_VERIFY_FLAGS = 0x1,
       STANDARD_NOT_MANDATORY_VERIFY_FLAGS = 0x1FE,
       MAX_STANDARD_TX_SIGOPS = 4000,
       MAX_BLOCK_SIZE = 1000000,
       MAX_BLOCK_SIGOPS = 20000,
       DATABASE_WRITE_INTERVAL = 3600,
       DATABASE_FLUSH_INTERVAL = 86400,
       nMinDiskSpace = 52428800 \<rparr>"

section \<open>Absolute finality: \<open>IsFinalTx\<close>\<close>

text \<open>The loop over \<open>tx.vin\<close> at the end of \<open>IsFinalTx\<close>: the first input whose sequence
  number differs from \<open>CTxIn::SEQUENCE_FINAL\<close> makes the function return false.\<close>

fun IsFinalTx_inputs :: "constants \<Rightarrow> CTxIn list \<Rightarrow> bool" where
  "IsFinalTx_inputs c [] = True"
| "IsFinalTx_inputs c (txin # rest) =
     (if \<not> (nSequence txin = SEQUENCE_FINAL c) then False else IsFinalTx_inputs c rest)"

definition IsFinalTx :: "constants \<Rightarrow> CTransaction \<Rightarrow> int32 \<Rightarrow> int64 \<Rightarrow> bool" where
  "IsFinalTx c tx nBlockHeight nBlockTime =
     (if nLockTime tx = 0 then True
      else if (ucast (nLockTime tx) :: int64)
                <s (if (ucast (nLockTime tx) :: int64) <s ucast (LOCKTIME_THRESHOLD c)
                    then (scast nBlockHeight :: int64) else nBlockTime)
      then True
      else IsFinalTx_inputs c (vin tx))"

section \<open>Block index entries\<close>

text \<open>
  A \<open>CBlockIndex\<close> with the members read here; \<open>pprev\<close> is a pointer that may be null.
  \<open>GetMedianTimePast\<close> and \<open>GetAncestor\<close> are member functions defined with the class,
  outside the source files: they are parameters.  \<open>GetAncestor\<close> returns a pointer, null
  when the chain has no entry at the requested height.
\<close>

datatype CBlockIndex =
  CBlockIndex (nHeight: int32) (nTimeOfBlock: uint32) (pprev: "CBlockIndex option")

record chain_ops =
  GetMedianTimePast :: "CBlockIndex \<Rightarrow> int64"
  GetAncestor :: "CBlockIndex \<Rightarrow> int32 \<Rightarrow> CBlockIndex option"

text \<open>What stops a run before it returns: a failed \<open>assert\<close>, or the use of a null pointer.\<close>

datatype fault = AssertionFailed | NullDereference

section \<open>Relative lock evaluation: \<open>EvaluateSequenceLocks\<close>\<close>

definition EvaluateSequenceLocks ::
  "chain_ops \<Rightarrow> CBlockIndex \<Rightarrow> int32 \<times> int64 \<Rightarrow> fault + bool" where
  "EvaluateSequenceLocks ops block lockPair =
     (case pprev block of
        None \<Rightarrow> Inl AssertionFailed
      | Some prev \<Rightarrow>
          (let nBlockTime = GetMedianTimePast ops prev in
           if CBlockIndex.nHeight block \<le>s fst lockPair \<or> nBlockTime \<le>s snd lockPair
           then Inr False
           else Inr True))"

section \<open>Relative lock computation: \<open>CalculateSequenceLocks\<close>\<close>

text \<open>
  The loop of \<open>CalculateSequenceLocks\<close> over the input index.  The state is the vector
  behind \<open>prevHeights\<close>, which the loop overwrites in place, and the two running maxima.
  \<open>block.GetAncestor(...)->GetMedianTimePast()\<close> uses the returned pointer without a
  test; a null pointer ends the run.  The additions are the wrapping additions of the
  operand width.
\<close>

function CalculateSequenceLocks_loop ::
  "constants \<Rightarrow> chain_ops \<Rightarrow> CBlockIndex \<Rightarrow> CTransaction \<Rightarrow> nat
     \<Rightarrow> int32 list \<times> int32 \<times> int64 \<Rightarrow> fault + (int32 list \<times> int32 \<times> int64)" where
  "CalculateSequenceLocks_loop c ops block tx txinIndex (prevHeights, nMinHeight, nMinTime) =
     (if txinIndex < length (vin tx) then
        (let txin = vin tx ! txinIndex in
         if nSequence txin AND SEQUENCE_LOCKTIME_DISABLE_FLAG c \<noteq> 0 then
           CalculateSequenceLocks_loop c ops block tx (Suc txinIndex)
             (prevHeights[txinIndex := 0], nMinHeight, nMinTime)
         else
           (let nCoinHeight = prevHeights ! txinIndex in
            if nSequence txin AND SEQUENCE_LOCKTIME_TYPE_FLAG c \<noteq> 0 then
              (case GetAncestor ops block (smax (nCoinHeight - 1) 0) of
                 None \<Rightarrow> Inl NullDereference
               | Some ancestor \<Rightarrow>
                   (let nCoinTime = GetMedianTimePast ops ancestor in
                    CalculateSequenceLocks_loop c ops block tx (Suc txinIndex)
                      (prevHeights, nMinHeight,
                       smax nMinTime
                         (nCoinTime
                            + ucast (push_bit (SEQUENCE_LOCKTIME_GRANULARITY c)
                                       (nSequence txin AND SEQUENCE_LOCKTIME_MASK c))
                            - 1))))
            else
              CalculateSequenceLocks_loop c ops block tx (Suc txinIndex)
                (prevHeights,
                 smax nMinHeight (nCoinHeight + (nSequence txin AND SEQUENCE_LOCKTIME_MASK c) - 1),
                 nMinTime)))
      else Inr (prevHeights, nMinHeight, nMinTime))"
  by pat_completeness auto
termination
  by (relation "measure (\<lambda>(c, ops, block, tx, txinIndex, st). length (vin tx) - txinIndex)") auto

definition CalculateSequenceLocks ::
  "constants \<Rightarrow> chain_ops \<Rightarrow> CTransaction \<Rightarrow> int32 \<Rightarrow> int32 list \<Rightarrow> CBlockIndex
     \<Rightarrow> fault + (int32 list \<times> int32 \<times> int64)" where
  "CalculateSequenceLocks c ops tx flags prevHeights block =
     (if length prevHeights \<noteq> length (vin tx) then Inl AssertionFailed
      else
        (let nMinHeight = - 1; nMinTime = - 1;
             fEnforceBIP68 = (2 \<le> nVersion tx \<and> flags AND LOCKTIME_VERIFY_SEQUENCE c \<noteq> 0)
         in if \<not> fEnforceBIP68 then Inr (prevHeights, nMinHeight, nMinTime)
            else CalculateSequenceLocks_loop c ops block tx 0 (prevHeights, nMinHeight, nMinTime)))"

definition SequenceLocks ::
  "constants \<Rightarrow> chain_ops \<Rightarrow> CTransaction \<Rightarrow> int32 \<Rightarrow> int32 list \<Rightarrow> CBlockIndex
     \<Rightarrow> fault + (int32 list \<times> bool)" where
  "SequenceLocks c ops tx flags prevHeights block =
     (case CalculateSequenceLocks c ops tx flags prevHeights block of
        Inl f \<Rightarrow> Inl f
      | Inr (prevHeights', lockPair) \<Rightarrow>
          (case EvaluateSequenceLocks ops block lockPair of
             Inl f \<Rightarrow> Inl f
           | Inr ok \<Rightarrow> Inr (prevHeights', ok)))"

text \<open>
  The constraint one input contributes, following the specification's wording: an input
  whose sequence number has the disable bit set contributes nothing; with the type bit
  set it contributes a time (median-time-past of the block before the coin's, plus the
  encoded units shifted by the granularity, minus one), otherwise a height (coin height
  plus the encoded units, minus one).
\<close>

definition height_lock :: "constants \<Rightarrow> CTransaction \<Rightarrow> int32 list \<Rightarrow> nat \<Rightarrow> int32 option" where
  "height_lock c tx prevHeights i =
     (let s = nSequence (vin tx ! i) in
      if s AND SEQUENCE_LOCKTIME_DISABLE_FLAG c = 0 \<and> s AND SEQUENCE_LOCKTIME_TYPE_FLAG c = 0
      then Some (prevHeights ! i + (s AND SEQUENCE_LOCKTIME_MASK c) - 1)
      else None)"

definition time_lock ::
  "constants \<Rightarrow> chain_ops \<Rightarrow> CBlockIndex \<Rightarrow> CTransaction \<Rightarrow> int32 list \<Rightarrow> nat \<Rightarrow> int64 option" where
  "time_lock c ops block tx prevHeights i =
     (let s = nSequence (vin tx ! i) in
      if s AND SEQUENCE_LOCKTIME_DISABLE_FLAG c = 0 \<and> s AND SEQUENCE_LOCKTIME_TYPE_FLAG c \<noteq> 0
      then (case GetAncestor ops block (smax (prevHeights ! i - 1) 0) of
              None \<Rightarrow> None
            | Some ancestor \<Rightarrow>
                Some (GetMedianTimePast ops ancestor
                      + ucast (push_bit (SEQUENCE_LOCKTIME_GRANULARITY c)
                                 (s AND SEQUENCE_LOCKTIME_MASK c))
                      - 1))
      else None)"

definition height_locks :: "constants \<Rightarrow> CTransaction \<Rightarrow> int32 list \<Rightarrow> int32 list" where
  "height_locks c tx prevHeights =
     List.map_filter (height_lock c tx prevHeights) [0..<length (vin tx)]"

definition time_locks ::
  "constants \<Rightarrow> chain_ops \<Rightarrow> CBlockIndex \<Rightarrow> CTransaction \<Rightarrow> int32 list \<Rightarrow> int64 list" where
  "time_locks c ops block tx prevHeights =
     List.map_filter (time_lock c ops block tx prevHeights) [0..<length (vin tx)]"

definition clear_disable_flag :: "constants \<Rightarrow> CTransaction \<Rightarrow> nat \<Rightarrow> CTransaction" where
  "clear_disable_flag c tx i =
     tx\<lparr>vin := (vin tx)[i := (vin tx ! i)
             \<lparr>nSequence := nSequence (vin tx ! i) AND NOT (SEQUENCE_LOCKTIME_DISABLE_FLAG c)\<rparr>]\<rparr>"

text \<open>Input \<open>i\<close> makes the loop use a null ancestor pointer.\<close>

definition null_at :: "constants \<Rightarrow> chain_ops \<Rightarrow> CBlockIndex \<Rightarrow> CTransaction \<Rightarrow> int32 list \<Rightarrow> nat \<Rightarrow> bool" where
  "null_at c ops block tx prevHeights i =
     (let s = nSequence (vin tx ! i) in
      s AND SEQUENCE_LOCKTIME_DISABLE_FLAG c = 0 \<and> s AND SEQUENCE_LOCKTIME_TYPE_FLAG c \<noteq> 0
      \<and> GetAncestor ops block (smax (prevHeights ! i - 1) 0) = None)"

text \<open>The loop equation is applied explicitly, one iteration at a time.\<close>

declare CalculateSequenceLocks_loop.simps [simp del]

section \<open>Validation state\<close>

text \<open>
  \<open>CValidationState\<close> is declared outside the source files.  The record holds what the
  callers in \<open>main.cpp\<close> read back (\<open>GetRejectReason\<close>, \<open>GetRejectCode\<close>, \<open>IsInvalid\<close>);
  the debug message, built with \<open>strprintf\<close>, is left out.  The reject codes are kept
  symbolic; \<open>REJECT_NONE\<close> stands for the code 0.
\<close>

datatype mode_state = MODE_VALID | MODE_INVALID | MODE_ERROR

datatype reject_code =
  REJECT_NONE | REJECT_INVALID | REJECT_NONSTANDARD | REJECT_ALREADY_KNOWN | REJECT_CONFLICT
  | REJECT_INSUFFICIENTFEE | REJECT_HIGHFEE

record CValidationState =
  mode :: mode_state
  nDoS :: int
  strRejectReason :: string
  chRejectCode :: reject_code
  corruptionPossible :: bool

text \<open>
  Modelled from the spec: the member functions of \<open>CValidationState\<close> are missing from the
  sources.  A rejection stores a machine-readable reason string, a reject code and a
  numeric severity, and marks the object invalid; an error marks an internal failure.
  Each returns the value its caller returns.
\<close>

definition DoS ::
  "int \<Rightarrow> bool \<Rightarrow> reject_code \<Rightarrow> string \<Rightarrow> bool \<Rightarrow> CValidationState \<Rightarrow> bool \<times> CValidationState" where
  "DoS level ret code reason corruption state =
     (let state1 = state\<lparr> chRejectCode := code, strRejectReason := reason,
                           corruptionPossible := corruption \<rparr>
      in if mode state1 = MODE_ERROR then (ret, state1)
         else (ret, state1\<lparr> nDoS := nDoS state1 + level, mode := MODE_INVALID \<rparr>))"

definition Invalid ::
  "bool \<Rightarrow> reject_code \<Rightarrow> string \<Rightarrow> CValidationState \<Rightarrow> bool \<times> CValidationState" where
  "Invalid ret code reason state = DoS 0 ret code reason False state"

definition Error :: "string \<Rightarrow> CValidationState \<Rightarrow> bool \<times> CValidationState" where
  "Error reason state =
     (False, (if mode state = MODE_VALID then state\<lparr> strRejectReason := reason \<rparr> else state)
               \<lparr> mode := MODE_ERROR \<rparr>)"

definition IsInvalid :: "CValidationState \<Rightarrow> bool" where
  "IsInvalid state = (mode state = MODE_INVALID)"

section \<open>Coins\<close>

text \<open>
  Modelled from the spec: the class \<open>Coin\<close> and the coin view are declared outside the
  sources.  An unspent output record holds the output, the height of the block that
  created it and whether its parent transaction was a coinbase/coinstake; the view
  answers \<open>GetCoin(outpoint) -> Coin?\<close>.  \<open>AccessCoin\<close> on an absent outpoint gives the
  empty (spent) coin, and \<open>HaveInputs\<close> holds when every input of a non-coinbase
  transaction has a coin.
\<close>

record Coin =
  out :: CTxOut
  fCoinBase :: bool
  nHeight :: uint32

type_synonym CCoinsView = "COutPoint \<Rightarrow> Coin option"

text \<open>
  Member functions of \<open>CTransaction\<close>, \<open>CTxOut\<close> and \<open>CScript\<close> that \<open>main.cpp\<close> calls and
  that are defined outside the sources: parameters.  \<open>GetCoinAge\<close> is the overload that reports failure (\<open>None\<close>),
  \<open>GetCoinAge_byValue\<close> the two-argument overload.  \<open>CheckTransaction\<close> is the
  context-free check; when it fails it gives the arguments of the \<open>state.DoS\<close> call it
  makes.
\<close>

record tx_ops =
  IsCoinBase :: "CTransaction \<Rightarrow> bool"
  IsCoinStake :: "CTransaction \<Rightarrow> bool"
  GetValueOut :: "CTransaction \<Rightarrow> int64"
  GetHash :: "CTransaction \<Rightarrow> uint256"
  GetCoinAge :: "CTransaction \<Rightarrow> 64 word option"
  GetCoinAge_byValue :: "CTransaction \<Rightarrow> 64 word \<Rightarrow> 64 word"
  CheckTransaction :: "CTransaction \<Rightarrow> (int \<times> reject_code \<times> string) option"
  IsEmpty :: "CTxOut \<Rightarrow> bool"
  GetSigOpCount :: "CScript \<Rightarrow> bool \<Rightarrow> uint32"
  GetSigOpCount_scriptSig :: "CScript \<Rightarrow> CScript \<Rightarrow> uint32"
  IsPayToScriptHash :: "CScript \<Rightarrow> bool"

definition HaveInputs :: "tx_ops \<Rightarrow> CCoinsView \<Rightarrow> CTransaction \<Rightarrow> bool" where
  "HaveInputs ops inputs tx =
     (if \<not> IsCoinBase ops tx then list_all (\<lambda>txin. inputs (prevout txin) \<noteq> None) (vin tx)
      else True)"

definition MoneyRange :: "constants \<Rightarrow> int64 \<Rightarrow> bool" where
  "MoneyRange c v = (0 \<le>s v \<and> v \<le>s MAX_MONEY c)"

section \<open>Chain state read by input checking\<close>

text \<open>
  \<open>Tip\<close> is \<open>chainActive.Tip()\<close>, null for an empty chain; \<open>bestBlockIndex\<close> is the entry
  that \<open>mapBlockIndex.find(inputs.GetBestBlock())\<close> yields, absent when the find fails.
  \<open>GetProofOfStakeReward\<close> reads the tip's money supply and multiplies in floating
  point; it is a parameter here.
\<close>

record chain_state =
  Tip :: "CBlockIndex option"
  bestBlockIndex :: "CBlockIndex option"
  GetProofOfStakeReward :: "int64 \<Rightarrow> int32 \<Rightarrow> int64"

definition GetSpendHeight :: "chain_state \<Rightarrow> fault + int32" where
  "GetSpendHeight chain =
     (case bestBlockIndex chain of
        None \<Rightarrow> Inl NullDereference
      | Some pindexPrev \<Rightarrow> Inr (CBlockIndex.nHeight pindexPrev + 1))"

section \<open>\<open>Consensus::CheckTxInputs\<close>\<close>

text \<open>
  The maturity test of one input.  It yields the updated \<open>nSpendHeight\<close> and whether the
  input is rejected.  \<open>coin.nHeight\<close> is an unsigned bit-field, widened to \<open>int64_t\<close>; the
  tip is only read when the depth is below \<open>COINBASE_MATURITY\<close>.
\<close>

definition CheckTxInputs_maturity ::
  "constants \<Rightarrow> tx_ops \<Rightarrow> chain_state \<Rightarrow> CTransaction \<Rightarrow> Coin \<Rightarrow> int64 \<Rightarrow> fault + (bool \<times> int64)" where
  "CheckTxInputs_maturity c ops chain tx coin nSpendHeight =
     (if fCoinBase coin \<or> IsCoinStake ops tx then
        (case (if nSpendHeight = - 1
               then (case GetSpendHeight chain of Inl f \<Rightarrow> Inl f | Inr h \<Rightarrow> Inr (scast h))
               else Inr nSpendHeight) of
           Inl f \<Rightarrow> Inl f
         | Inr nSpendHeight1 \<Rightarrow>
             if nSpendHeight1 - ucast (Coin.nHeight coin) <s scast (COINBASE_MATURITY c) then
               (case Tip chain of
                  None \<Rightarrow> Inl NullDereference
                | Some tip \<Rightarrow> Inr (1600000 <s CBlockIndex.nHeight tip, nSpendHeight1))
             else Inr (False, nSpendHeight1))
      else Inr (False, nSpendHeight))"

text \<open>
  How a loop iteration or a test ends: the enclosing function returns a value, or control
  goes on with the updated local variables.
\<close>

datatype ('r, 'a) flow = Return 'r | Next 'a

text \<open>One iteration of the loop over \<open>tx.vin\<close>, on the locals \<open>(nValueIn, nSpendHeight)\<close>.\<close>

definition CheckTxInputs_input ::
  "constants \<Rightarrow> tx_ops \<Rightarrow> chain_state \<Rightarrow> CCoinsView \<Rightarrow> CTransaction \<Rightarrow> CValidationState
     \<Rightarrow> CTxIn \<Rightarrow> int64 \<times> int64
     \<Rightarrow> fault + (bool \<times> CValidationState, int64 \<times> int64) flow" where
  "CheckTxInputs_input c ops chain inputs tx state txin locals =
     (case inputs (prevout txin) of
        None \<Rightarrow> Inl AssertionFailed
      | Some coin \<Rightarrow>
          (case CheckTxInputs_maturity c ops chain tx coin (snd locals) of
             Inl f \<Rightarrow> Inl f
           | Inr (premature, nSpendHeight) \<Rightarrow>
               if premature then
                 Inr (Return (Invalid False REJECT_INVALID
                                ''bad-txns-premature-spend-of-coinbase'' state))
               else
                 (let nValueIn = fst locals + nValue (out coin) in
                  if \<not> MoneyRange c (nValue (out coin)) \<or> \<not> MoneyRange c nValueIn then
                    Inr (Return (DoS 100 False REJECT_INVALID
                                   ''bad-txns-inputvalues-outofrange'' False state))
                  else Inr (Next (nValueIn, nSpendHeight)))))"

fun CheckTxInputs_loop ::
  "constants \<Rightarrow> tx_ops \<Rightarrow> chain_state \<Rightarrow> CCoinsView \<Rightarrow> CTransaction \<Rightarrow> CValidationState
     \<Rightarrow> CTxIn list \<Rightarrow> int64 \<times> int64
     \<Rightarrow> fault + (bool \<times> CValidationState, int64 \<times> int64) flow" where
  "CheckTxInputs_loop c ops chain inputs tx state [] locals = Inr (Next locals)"
| "CheckTxInputs_loop c ops chain inputs tx state (txin # rest) locals =
     (case CheckTxInputs_input c ops chain inputs tx state txin locals of
        Inl f \<Rightarrow> Inl f
      | Inr (Return r) \<Rightarrow> Inr (Return r)
      | Inr (Next locals1) \<Rightarrow> CheckTxInputs_loop c ops chain inputs tx state rest locals1)"

text \<open>The part of \<open>CheckTxInputs\<close> after the loop.\<close>

definition CheckTxInputs_balance ::
  "constants \<Rightarrow> tx_ops \<Rightarrow> chain_state \<Rightarrow> CTransaction \<Rightarrow> CValidationState \<Rightarrow> int64 \<times> int64
     \<Rightarrow> bool \<times> CValidationState" where
  "CheckTxInputs_balance c ops chain tx state locals =
     (let nValueIn = fst locals; nSpendHeight = snd locals in
      if \<not> IsCoinStake ops tx then
        (if nValueIn <s GetValueOut ops tx then
           DoS 100 False REJECT_INVALID ''bad-txns-in-belowout'' False state
         else
           (let nTxFee = nValueIn - GetValueOut ops tx in
            if nTxFee <s 0 then
              DoS 100 False REJECT_INVALID ''bad-txns-fee-negative'' False state
            else
              (let nFees = 0 + nTxFee in
               if \<not> MoneyRange c nFees then
                 DoS 100 False REJECT_INVALID ''bad-txns-fee-outofrange'' False state
               else (True, state))))
      else
        (case GetCoinAge ops tx of
           None \<Rightarrow> DoS 100 False REJECT_INVALID ''bad-txns-cant-get-coin-age'' False state
         | Some nCoinAge \<Rightarrow>
             (let nStakeReward = GetValueOut ops tx - nValueIn in
              if GetProofOfStakeReward chain (GetCoinAge_byValue ops tx nCoinAge)
                     (ucast nSpendHeight)
                   + DEFAULT_TRANSACTION_MINFEE c <s nStakeReward
              then DoS 100 False REJECT_INVALID ''bad-txns-stake-reward-too-high'' False state
              else (True, state))))"

text \<open>
  \<open>Consensus::CheckTxInputs\<close>.  The parameter \<open>nSpendHeight\<close> is overwritten with \<open>-1\<close>
  before it is read, so the value the caller passes has no effect.
\<close>

definition CheckTxInputs ::
  "constants \<Rightarrow> tx_ops \<Rightarrow> chain_state \<Rightarrow> CTransaction \<Rightarrow> CValidationState \<Rightarrow> CCoinsView
     \<Rightarrow> int64 \<Rightarrow> fault + (bool \<times> CValidationState)" where
  "CheckTxInputs c ops chain tx state inputs nSpendHeight_arg =
     (if \<not> HaveInputs ops inputs tx then Inr (Invalid False REJECT_NONE [] state)
      else
        (case CheckTxInputs_loop c ops chain inputs tx state (vin tx) (0, - 1) of
           Inl f \<Rightarrow> Inl f
         | Inr (Return r) \<Rightarrow> Inr r
         | Inr (Next locals) \<Rightarrow> Inr (CheckTxInputs_balance c ops chain tx state locals)))"

text \<open>The depth test of the maturity rule: \<open>nSpendHeight - coin.nHeight < COINBASE_MATURITY\<close>.\<close>

definition premature_spend :: "constants \<Rightarrow> int32 \<Rightarrow> Coin \<Rightarrow> bool" where
  "premature_spend c h coin
     \<longleftrightarrow> scast h - ucast (Coin.nHeight coin) <s (scast (COINBASE_MATURITY c) :: int64)"

text \<open>The reasons with which one iteration of the input loop can reject.\<close>

definition reject_reasons_of_input :: "string set" where
  "reject_reasons_of_input =
     {''bad-txns-premature-spend-of-coinbase'', ''bad-txns-inputvalues-outofrange''}"

section \<open>Effects on the outside world\<close>

text \<open>
  Calls that act on components outside the source files (log, user interface, databases,
  peers, observers) are recorded, in order, as a trace.
\<close>

datatype effect =
    Log string
  | StartShutdown string
  | FlushBlockFile
  | WriteBatchSync "nat list" int32 "nat list"
  | CoinsFlush
  | SetBestChain
  | AskFor uint256
  | ServiceCommand uint256
  | ViewHaveCoin COutPoint
  | ViewGetValueIn uint256
  | ViewUncache COutPoint
  | SetMinRelayTxFee
  | FreeCountDecay
  | FreeCountAdd uint32
  | PoolAddUnchecked uint256
  | PoolExpire
  | PoolTrimToSize
  | TransactionAddedToMempool uint256

text \<open>An external call returns a value or throws a \<open>std::runtime_error\<close> with a message.\<close>

datatype 'a outcome = Returns 'a | Throws string

text \<open>How a block of statements inside \<open>try\<close> ends.\<close>

datatype 'r ending = Proceed | Returned 'r | Thrown string

section \<open>\<open>AbortNode\<close> and \<open>CheckDiskSpace\<close>\<close>

text \<open>
  \<open>AbortNode(strMessage, userMessage)\<close> stores and logs the message, shows a message box
  and calls \<open>StartShutdown\<close>; it returns false.  The two-argument overload with a state
  also records the error in the state.
\<close>

definition AbortNode :: "string \<Rightarrow> bool \<times> effect list" where
  "AbortNode strMessage = (False, [Log strMessage, StartShutdown strMessage])"

definition AbortNode_state ::
  "CValidationState \<Rightarrow> string \<Rightarrow> (bool \<times> CValidationState) \<times> effect list" where
  "AbortNode_state state strMessage = (Error strMessage state, snd (AbortNode strMessage))"

text \<open>\<open>fs_space\<close> is the result of \<open>fs::space(GetDataDir()).available\<close>.\<close>

definition CheckDiskSpace ::
  "constants \<Rightarrow> 64 word outcome \<Rightarrow> 64 word \<Rightarrow> (bool \<times> effect list) outcome" where
  "CheckDiskSpace c fs_space nAdditionalBytes =
     (case fs_space of
        Throws e \<Rightarrow> Throws e
      | Returns nFreeBytesAvailable \<Rightarrow>
          if nFreeBytesAvailable < nMinDiskSpace c + nAdditionalBytes
          then Returns (AbortNode ''Disk space is low!'')
          else Returns (True, []))"

section \<open>\<open>FlushStateToDisk\<close>\<close>

datatype FlushStateMode =
  FLUSH_STATE_NONE | FLUSH_STATE_IF_NEEDED | FLUSH_STATE_PERIODIC | FLUSH_STATE_ALWAYS

text \<open>
  What one call reads from outside.  \<open>cacheLargeComparison\<close> is the value of the
  floating-point comparison \<open>cacheSize * (10.0 / 9) > nCoinCacheUsage\<close>; the database calls
  \<open>WriteBatchSync\<close> and \<open>Flush\<close> return a success flag or throw.
\<close>

record flush_env =
  GetTimeMicros :: int64
  DynamicMemoryUsage :: "64 word"
  nCoinCacheUsage :: "64 word"
  cacheLargeComparison :: bool
  fs_space :: "64 word outcome"
  WriteBatchSync_result :: "bool outcome"
  GetCacheSize :: "64 word"
  Flush_result :: "bool outcome"
  nLastBlockFile :: int32

text \<open>
  What persists between calls: the three function-local statics and the two dirty sets.
  A dirty file is named by its index into \<open>vinfoBlockFile\<close>.  \<open>setDirtyBlockIndex\<close> is a
  \<open>std::set<CBlockIndex *>\<close>: a dirty block-index entry is named by the address of its
  object, and the set is read out by increasing address.
\<close>

record flush_globals =
  nLastWrite :: int64
  nLastFlush :: int64
  nLastSetChain :: int64
  setDirtyFileInfo :: "nat set"
  setDirtyBlockIndex :: "nat set"


text \<open>The statement block guarded by \<open>fDoFullFlush\<close>.\<close>

definition FlushStateToDisk_coins ::
  "constants \<Rightarrow> flush_env \<Rightarrow> CValidationState \<Rightarrow> int64 \<Rightarrow> flush_globals
     \<Rightarrow> (bool \<times> CValidationState) ending \<times> flush_globals \<times> effect list" where
  "FlushStateToDisk_coins c env state nNow g =
     (case CheckDiskSpace c (fs_space env) (128 * 2 * 2 * GetCacheSize env) of
        Throws e \<Rightarrow> (Thrown e, g, [])
      | Returns (False, tr) \<Rightarrow> (Returned (Error ''out of disk space'' state), g, tr)
      | Returns (True, tr) \<Rightarrow>
          (case Flush_result env of
             Throws e \<Rightarrow> (Thrown e, g, tr)
           | Returns False \<Rightarrow>
               (let (r, tr2) = AbortNode_state state ''Failed to write to coin database''
                in (Returned r, g, tr @ tr2))
           | Returns True \<Rightarrow> (Proceed, g\<lparr> nLastFlush := nNow \<rparr>, tr @ [CoinsFlush])))"














text \<open>The free disk space suffices for \<open>nAdditionalBytes\<close> more bytes.\<close>

definition disk_space_ok :: "constants \<Rightarrow> flush_env \<Rightarrow> 64 word \<Rightarrow> bool" where
  "disk_space_ok c env nAdditionalBytes =
     (\<exists>nFree. fs_space env = Returns nFree \<and> \<not> nFree < nMinDiskSpace c + nAdditionalBytes)"


section \<open>Blocks\<close>

text \<open>
  A \<open>CBlock\<close> with the members that \<open>CheckBlock\<close> reads; \<open>fChecked\<close> is the mutable flag that
  caches a successful check.  The member functions of the block and the header checks
  that \<open>CheckBlock\<close> calls are defined outside the sources: parameters.
  \<open>CheckProofOfWork\<close> stands for the call on the block's hash and bits,
  \<open>CheckBlockHeader\<close> gives the arguments of the rejection it records when it fails, and
  \<open>BlockMerkleRoot\<close> gives the root together with the \<open>mutated\<close> flag.
\<close>

record CBlock =
  hashMerkleRoot :: uint256
  vtx :: "CTransaction list"
  fChecked :: bool

record block_ops =
  IsProofOfWork :: "CBlock \<Rightarrow> bool"
  IsProofOfStake :: "CBlock \<Rightarrow> bool"
  CheckProofOfWork :: "CBlock \<Rightarrow> bool"
  CheckBlockHeader :: "CBlock \<Rightarrow> bool \<Rightarrow> (int \<times> reject_code \<times> string) option"
  BlockMerkleRoot :: "CBlock \<Rightarrow> uint256 \<times> bool"
  GetSerializeSize :: "CBlock \<Rightarrow> nat"
  GetBlockTime :: "CBlock \<Rightarrow> int64"
  CheckBlockSignature :: "CBlock \<Rightarrow> bool"

text \<open>
  The service-transaction side channel: \<open>g_stxmempool->lookup\<close>,
  \<open>CheckServiceTransaction\<close> and \<open>ProcessServiceCommand\<close>.  The last two receive the
  validation state by reference and may change it in any way.
\<close>

record 'stx service_ops =
  lookup :: "uint256 \<Rightarrow> 'stx option"
  CheckServiceTransaction :: "'stx \<Rightarrow> CTransaction \<Rightarrow> CValidationState \<Rightarrow> bool \<times> CValidationState"
  ProcessServiceCommand :: "'stx \<Rightarrow> CTransaction \<Rightarrow> CValidationState \<Rightarrow> CValidationState"

section \<open>\<open>GetLegacySigOpCount\<close>\<close>

definition GetLegacySigOpCount :: "tx_ops \<Rightarrow> CTransaction \<Rightarrow> uint32" where
  "GetLegacySigOpCount ops tx =
     (let nSigOps = foldl (\<lambda>nSigOps txin. nSigOps + GetSigOpCount ops (scriptSig txin) False)
                      0 (vin tx)
      in foldl (\<lambda>nSigOps txout. nSigOps + GetSigOpCount ops (scriptPubKey txout) False)
           nSigOps (vout tx))"

section \<open>\<open>CheckBlock\<close>\<close>

text \<open>
  The checks before the transactions are looked at: proof of work, header, merkle root
  and size limits.  \<open>Some\<close> is the return of \<open>CheckBlock\<close>, \<open>None\<close> means that all passed.
\<close>

definition CheckBlock_integrity ::
  "constants \<Rightarrow> block_ops \<Rightarrow> CBlock \<Rightarrow> CValidationState \<Rightarrow> bool \<Rightarrow> bool
     \<Rightarrow> ((bool \<times> CValidationState) \<times> effect list) option" where
  "CheckBlock_integrity c bops block state fCheckPOW fCheckMerkleRoot =
     (if IsProofOfWork bops block \<and> fCheckPOW \<and> \<not> CheckProofOfWork bops block then
        Some (DoS 50 False REJECT_INVALID ''high-hash'' False state,
              [Log ''CheckBlockHeader(): proof of work failed''])
      else
        (case CheckBlockHeader bops block fCheckPOW of
           Some (level, code, reason) \<Rightarrow> Some (DoS level False code reason False state, [])
         | None \<Rightarrow>
             (let (hashMerkleRoot2, mutated) = BlockMerkleRoot bops block in
              if fCheckMerkleRoot \<and> hashMerkleRoot block \<noteq> hashMerkleRoot2 then
                Some (DoS 100 False REJECT_INVALID ''bad-txnmrklroot'' True state,
                      [Log ''CheckBlock(): hashMerkleRoot mismatch''])
              else if fCheckMerkleRoot \<and> mutated then
                Some (DoS 100 False REJECT_INVALID ''bad-txns-duplicate'' True state,
                      [Log ''CheckBlock(): duplicate transaction''])
              else if vtx block = [] \<or> unat (MAX_BLOCK_SIZE c) < length (vtx block)
                      \<or> unat (MAX_BLOCK_SIZE c) < GetSerializeSize bops block then
                Some (DoS 100 False REJECT_INVALID ''bad-blk-length'' False state,
                      [Log ''CheckBlock(): size limits failed''])
              else None)))"

text \<open>The loop \<open>for (i = 1; ...)\<close> that looks for a second coinbase.\<close>

function CheckBlock_more_coinbase :: "tx_ops \<Rightarrow> CTransaction list \<Rightarrow> nat \<Rightarrow> bool" where
  "CheckBlock_more_coinbase ops txs i =
     (if i < length txs then
        (if IsCoinBase ops (txs ! i) then True else CheckBlock_more_coinbase ops txs (Suc i))
      else False)"
  by pat_completeness auto
termination
  by (relation "measure (\<lambda>(ops, txs, i). length txs - i)") auto

text \<open>The loop \<open>for (i = 2; ...)\<close> that looks for a misplaced coinstake.\<close>

function CheckBlock_late_coinstake :: "tx_ops \<Rightarrow> CTransaction list \<Rightarrow> nat \<Rightarrow> bool" where
  "CheckBlock_late_coinstake ops txs i =
     (if i < length txs then
        (if IsCoinStake ops (txs ! i) then True else CheckBlock_late_coinstake ops txs (Suc i))
      else False)"
  by pat_completeness auto
termination
  by (relation "measure (\<lambda>(ops, txs, i). length txs - i)") auto


declare CheckBlock_more_coinbase.simps [simp del] CheckBlock_late_coinstake.simps [simp del]

text \<open>
  The checks on the shape of the transaction list: coinbase first and nowhere else, a
  coinstake at index 1 at most, and an empty coinbase output in a proof-of-stake block.
\<close>

definition CheckBlock_shape ::
  "tx_ops \<Rightarrow> block_ops \<Rightarrow> CBlock \<Rightarrow> CValidationState
     \<Rightarrow> ((bool \<times> CValidationState) \<times> effect list) option" where
  "CheckBlock_shape ops bops block state =
     (if vtx block = [] \<or> \<not> IsCoinBase ops (vtx block ! 0) then
        Some (DoS 100 False REJECT_INVALID ''bad-cb-missing'' False state,
              [Log ''CheckBlock(): first tx is not coinbase''])
      else if CheckBlock_more_coinbase ops (vtx block) 1 then
        Some (DoS 100 False REJECT_INVALID ''bad-cb-multiple'' False state,
              [Log ''CheckBlock(): more than one coinbase''])
      else if CheckBlock_late_coinstake ops (vtx block) 2 then
        Some (DoS 100 False REJECT_NONE [] False state,
              [Log ''CheckBlock() : coinstake in wrong position''])
      else if IsProofOfStake bops block
              \<and> (length (vout (vtx block ! 0)) \<noteq> 1 \<or> \<not> IsEmpty ops (vout (vtx block ! 0) ! 0)) then
        Some (DoS 0 False REJECT_NONE [] False state,
              [Log ''CheckBlock() : coinbase output not empty for proof-of-stake block''])
      else None)"

text \<open>
  The service-transaction step for a transaction of version 2.  It yields the state and
  the effects; it has no part in the decision.
\<close>

definition CheckBlock_service ::
  "'stx service_ops \<Rightarrow> CTransaction \<Rightarrow> CValidationState \<Rightarrow> CValidationState \<times> effect list" where
  "CheckBlock_service sops tx state =
     (case lookup sops (serviceReferenceHash tx) of
        None \<Rightarrow>
          (state,
           [Log ''tx pays for service transaction but none can be found'',
            Log ''Requesting stx'',
            AskFor (serviceReferenceHash tx)])
      | Some stx \<Rightarrow>
          (case CheckServiceTransaction sops stx tx state of
             (False, state1) \<Rightarrow>
               (state1, [Log ''CheckBlock(): CheckServiceTransaction failed. This is a non fatal error''])
           | (True, state1) \<Rightarrow>
               (ProcessServiceCommand sops stx tx state1,
                [ServiceCommand (serviceReferenceHash tx)])))"

text \<open>One iteration of the loop ``Check transactions''.\<close>

definition CheckBlock_tx ::
  "tx_ops \<Rightarrow> block_ops \<Rightarrow> 'stx service_ops \<Rightarrow> CBlock \<Rightarrow> CTransaction
     \<Rightarrow> CValidationState \<times> effect list
     \<Rightarrow> ((bool \<times> CValidationState) \<times> effect list, CValidationState \<times> effect list) flow" where
  "CheckBlock_tx ops bops sops block tx locals =
     (let state = fst locals; tr = snd locals in
      case CheckTransaction ops tx of
        Some (level, code, reason) \<Rightarrow>
          (let state1 = snd (DoS level False code reason False state) in
           Return (Invalid False (chRejectCode state1) (strRejectReason state1) state1, tr))
      | None \<Rightarrow>
          (let (state2, tr2) = (if nVersion tx = 2 then CheckBlock_service sops tx state
                                else (state, []))
           in if GetBlockTime bops block <s ucast (nTime tx) then
                Return (DoS 50 False REJECT_NONE [] False state2,
                        tr @ tr2
                        @ [Log ''CheckBlock() : block timestamp earlier than transaction timestamp''])
              else Next (state2, tr @ tr2)))"

fun CheckBlock_txs ::
  "tx_ops \<Rightarrow> block_ops \<Rightarrow> 'stx service_ops \<Rightarrow> CBlock \<Rightarrow> CTransaction list
     \<Rightarrow> CValidationState \<times> effect list
     \<Rightarrow> ((bool \<times> CValidationState) \<times> effect list, CValidationState \<times> effect list) flow" where
  "CheckBlock_txs ops bops sops block [] locals = Next locals"
| "CheckBlock_txs ops bops sops block (tx # rest) locals =
     (case CheckBlock_tx ops bops sops block tx locals of
        Return r \<Rightarrow> Return r
      | Next locals1 \<Rightarrow> CheckBlock_txs ops bops sops block rest locals1)"

text \<open>The checks after the loop: signature-operation budget and block signature.\<close>

definition CheckBlock_budget ::
  "constants \<Rightarrow> tx_ops \<Rightarrow> block_ops \<Rightarrow> CBlock \<Rightarrow> CValidationState
     \<Rightarrow> ((bool \<times> CValidationState) \<times> effect list) option" where
  "CheckBlock_budget c ops bops block state =
     (let nSigOps = foldl (\<lambda>nSigOps tx. nSigOps + GetLegacySigOpCount ops tx) 0 (vtx block) in
      if MAX_BLOCK_SIGOPS c < nSigOps then
        Some (DoS 100 False REJECT_INVALID ''bad-blk-sigops'' False state,
              [Log ''CheckBlock(): out-of-bounds SigOpCount''])
      else if \<not> CheckBlockSignature bops block then
        Some (DoS 100 False REJECT_INVALID ''bad-block-sig'' False state,
              [Log ''CheckBlock() : bad block signature''])
      else None)"

text \<open>
  \<open>CheckBlock\<close>.  The result is the returned flag with the state, the value of
  \<open>block.fChecked\<close> afterwards, and the effects.
\<close>

definition CheckBlock ::
  "constants \<Rightarrow> tx_ops \<Rightarrow> block_ops \<Rightarrow> 'stx service_ops \<Rightarrow> CBlock \<Rightarrow> CValidationState
     \<Rightarrow> bool \<Rightarrow> bool \<Rightarrow> (bool \<times> CValidationState) \<times> bool \<times> effect list" where
  "CheckBlock c ops bops sops block state fCheckPOW fCheckMerkleRoot =
     (if fChecked block then ((True, state), fChecked block, [])
      else
        (case CheckBlock_integrity c bops block state fCheckPOW fCheckMerkleRoot of
           Some (r, tr) \<Rightarrow> (r, fChecked block, tr)
         | None \<Rightarrow>
             (case CheckBlock_shape ops bops block state of
                Some (r, tr) \<Rightarrow> (r, fChecked block, tr)
              | None \<Rightarrow>
                  (case CheckBlock_txs ops bops sops block (vtx block) (state, []) of
                     Return (r, tr) \<Rightarrow> (r, fChecked block, tr)
                   | Next (state1, tr1) \<Rightarrow>
                       (case CheckBlock_budget c ops bops block state1 of
                          Some (r, tr) \<Rightarrow> (r, fChecked block, tr1 @ tr)
                        | None \<Rightarrow>
                            ((True, state1),
                             (if fCheckPOW \<and> fCheckMerkleRoot then True else fChecked block),
                             tr1))))))"


text \<open>A transaction is stamped later than the block.\<close>

definition later_than_block :: "block_ops \<Rightarrow> CBlock \<Rightarrow> CTransaction \<Rightarrow> bool" where
  "later_than_block bops block tx \<longleftrightarrow> GetBlockTime bops block <s (ucast (nTime tx) :: int64)"

text \<open>
  The flag \<open>fChecked\<close> is written in one place: at the end of a run of \<open>CheckBlock\<close> that
  returns true and had both \<open>fCheckPOW\<close> and \<open>fCheckMerkleRoot\<close> set.  So the flag of a block
  is either unset, or was set by such a run on this block while its flag was unset.
\<close>

definition checked_by_CheckBlock ::
  "constants \<Rightarrow> tx_ops \<Rightarrow> block_ops \<Rightarrow> 'stx service_ops \<Rightarrow> CBlock \<Rightarrow> bool" where
  "checked_by_CheckBlock c ops bops sops block \<longleftrightarrow>
     \<not> fChecked block
     \<or> (\<exists>state. fst (fst (CheckBlock c ops bops sops (block\<lparr> fChecked := False \<rparr>) state
                             True True)))"

section \<open>Script checks: \<open>CScriptCheck\<close> and \<open>CheckInputs\<close>\<close>

text \<open>
  \<open>VerifyScript\<close> is the script interpreter, outside the source files: a parameter.  It is
  given the unlocking and the locking script, the flags and the checker's data (spending
  transaction, input index, whether to store in the signature cache); \<open>None\<close> is success,
  \<open>Some e\<close> a failure with \<open>ScriptErrorString\<close> \<open>e\<close>.
\<close>

record script_ops =
  VerifyScript :: "CScript \<Rightarrow> CScript \<Rightarrow> uint32 \<Rightarrow> CTransaction \<Rightarrow> nat \<Rightarrow> bool \<Rightarrow> string option"

text \<open>A \<open>CScriptCheck\<close> object, built as \<open>CScriptCheck(scriptPubKey, amount, tx, i, flags, cacheStore)\<close>.\<close>

datatype CScriptCheck = CScriptCheck CScript int64 CTransaction nat uint32 bool

fun CScriptCheck_call :: "script_ops \<Rightarrow> CScriptCheck \<Rightarrow> string option" where
  "CScriptCheck_call sc (CScriptCheck scriptPubKey_arg amount ptxTo nIn nFlags cacheStore) =
     VerifyScript sc (scriptSig (vin ptxTo ! nIn)) scriptPubKey_arg nFlags ptxTo nIn cacheStore"

text \<open>
  One iteration of the script loop of \<open>CheckInputs\<close>.  With a vector \<open>pvChecks\<close> the check is
  pushed and not run; without one it is run at once.
\<close>

definition CheckInputs_input ::
  "constants \<Rightarrow> script_ops \<Rightarrow> CTransaction \<Rightarrow> CValidationState \<Rightarrow> CCoinsView \<Rightarrow> uint32 \<Rightarrow> bool
     \<Rightarrow> bool \<Rightarrow> nat \<Rightarrow> fault + (bool \<times> CValidationState, CScriptCheck list) flow" where
  "CheckInputs_input c sc tx state inputs flags cacheStore pvChecks i =
     (case inputs (prevout (vin tx ! i)) of
        None \<Rightarrow> Inl AssertionFailed
      | Some coin \<Rightarrow>
          (let check = CScriptCheck (scriptPubKey (out coin)) (nValue (out coin)) tx i flags
                         cacheStore
           in if pvChecks then Inr (Next [check])
              else
                (case CScriptCheck_call sc check of
                   None \<Rightarrow> Inr (Next [])
                 | Some err \<Rightarrow>
                     if flags AND STANDARD_NOT_MANDATORY_VERIFY_FLAGS c \<noteq> 0
                        \<and> CScriptCheck_call sc
                              (CScriptCheck (scriptPubKey (out coin)) (nValue (out coin)) tx i
                                 (flags AND NOT (STANDARD_NOT_MANDATORY_VERIFY_FLAGS c))
                                 cacheStore) = None
                     then Inr (Return (Invalid False REJECT_NONSTANDARD
                                         (''non-mandatory-script-verify-flag ('' @ err @ '')'')
                                         state))
                     else Inr (Return (DoS 100 False REJECT_INVALID
                                         (''mandatory-script-verify-flag-failed ('' @ err @ '')'')
                                         False state)))))"

function CheckInputs_loop ::
  "constants \<Rightarrow> script_ops \<Rightarrow> CTransaction \<Rightarrow> CValidationState \<Rightarrow> CCoinsView \<Rightarrow> uint32 \<Rightarrow> bool
     \<Rightarrow> bool \<Rightarrow> nat \<Rightarrow> CScriptCheck list
     \<Rightarrow> fault + (bool \<times> CValidationState, CScriptCheck list) flow" where
  "CheckInputs_loop c sc tx state inputs flags cacheStore pvChecks i pushed =
     (if i < length (vin tx) then
        (case CheckInputs_input c sc tx state inputs flags cacheStore pvChecks i of
           Inl f \<Rightarrow> Inl f
         | Inr (Return r) \<Rightarrow> Inr (Return r)
         | Inr (Next added) \<Rightarrow>
             CheckInputs_loop c sc tx state inputs flags cacheStore pvChecks (Suc i)
               (pushed @ added))
      else Inr (Next pushed))"
  by pat_completeness auto
termination
  by (relation "measure (\<lambda>(c, sc, tx, state, inputs, flags, cacheStore, pvChecks, i, pushed).
                           length (vin tx) - i)") auto

declare CheckInputs_loop.simps [simp del]

text \<open>
  \<open>CheckInputs\<close>.  \<open>pvChecks\<close> tells whether the caller passes a vector; the checks pushed
  into it are the last component of the result.
\<close>

definition CheckInputs ::
  "constants \<Rightarrow> tx_ops \<Rightarrow> script_ops \<Rightarrow> chain_state \<Rightarrow> CTransaction \<Rightarrow> CValidationState
     \<Rightarrow> CCoinsView \<Rightarrow> bool \<Rightarrow> uint32 \<Rightarrow> bool \<Rightarrow> bool
     \<Rightarrow> fault + ((bool \<times> CValidationState) \<times> CScriptCheck list)" where
  "CheckInputs c ops sc chain tx state inputs fScriptChecks flags cacheStore pvChecks =
     (if \<not> IsCoinBase ops tx then
        (case GetSpendHeight chain of
           Inl f \<Rightarrow> Inl f
         | Inr h \<Rightarrow>
             (case CheckTxInputs c ops chain tx state inputs (scast h) of
                Inl f \<Rightarrow> Inl f
              | Inr (False, state1) \<Rightarrow> Inr ((False, state1), [])
              | Inr (True, state1) \<Rightarrow>
                  if fScriptChecks then
                    (case CheckInputs_loop c sc tx state1 inputs flags cacheStore pvChecks 0 [] of
                       Inl f \<Rightarrow> Inl f
                     | Inr (Return r) \<Rightarrow> Inr (r, [])
                     | Inr (Next pushed) \<Rightarrow> Inr ((True, state1), pushed))
                  else Inr ((True, state1), [])))
      else Inr ((True, state), []))"

section \<open>\<open>CheckFinalTx\<close>\<close>

text \<open>
  Modelled from the spec: \<open>CChain\<close> is declared outside the sources.  The active chain is a
  root-to-leaf path, so \<open>chainActive.Height()\<close> is the height of the tip, and \<open>-1\<close> for
  an empty chain.
\<close>

definition Height :: "chain_state \<Rightarrow> int32" where
  "Height chain = (case Tip chain of None \<Rightarrow> - 1 | Some tip \<Rightarrow> CBlockIndex.nHeight tip)"

definition CheckFinalTx ::
  "constants \<Rightarrow> chain_ops \<Rightarrow> chain_state \<Rightarrow> int64 \<Rightarrow> CTransaction \<Rightarrow> int32 \<Rightarrow> fault + bool" where
  "CheckFinalTx c cops chain adjustedTime tx flags_arg =
     (let flags = smax flags_arg 0;
          nBlockHeight = Height chain + 1
      in if flags AND LOCKTIME_MEDIAN_TIME_PAST c \<noteq> 0 then
           (case Tip chain of
              None \<Rightarrow> Inl NullDereference
            | Some tip \<Rightarrow> Inr (IsFinalTx c tx nBlockHeight (GetMedianTimePast cops tip)))
         else Inr (IsFinalTx c tx nBlockHeight adjustedTime))"

section \<open>\<open>CheckSequenceLocks\<close>\<close>

record LockPoints =
  height :: int32
  time :: int64
  maxInputBlock :: "CBlockIndex option"

text \<open>The loop that fills \<open>prevheights\<close> from the coins of the inputs; \<open>None\<close> is a missing input.\<close>

fun CheckSequenceLocks_heights ::
  "constants \<Rightarrow> CCoinsView \<Rightarrow> CBlockIndex \<Rightarrow> CTxIn list \<Rightarrow> int32 list option" where
  "CheckSequenceLocks_heights c view tip [] = Some []"
| "CheckSequenceLocks_heights c view tip (txin # rest) =
     (case view (prevout txin) of
        None \<Rightarrow> None
      | Some coin \<Rightarrow>
          (case CheckSequenceLocks_heights c view tip rest of
             None \<Rightarrow> None
           | Some hs \<Rightarrow>
               Some ((if Coin.nHeight coin = MEMPOOL_HEIGHT c then CBlockIndex.nHeight tip + 1
                      else Coin.nHeight coin) # hs)))"

text \<open>The loop that finds the highest input height other than the assumed mempool height.\<close>

definition CheckSequenceLocks_maxInputHeight :: "CBlockIndex \<Rightarrow> int32 list \<Rightarrow> int32" where
  "CheckSequenceLocks_maxInputHeight tip prevheights =
     foldl (\<lambda>maxInputHeight h.
              if h \<noteq> CBlockIndex.nHeight tip + 1 then smax maxInputHeight h else maxInputHeight)
       0 prevheights"

text \<open>
  \<open>CheckSequenceLocks\<close>.  \<open>lp\<close> is the pointed-to \<open>LockPoints\<close>, \<open>None\<close> for a null pointer;
  the result carries the returned flag, the value of \<open>*lp\<close> afterwards and the effects.  A
  missing input is logged by \<open>error\<close> and gives false.
\<close>

definition CheckSequenceLocks ::
  "constants \<Rightarrow> chain_ops \<Rightarrow> chain_state \<Rightarrow> CCoinsView \<Rightarrow> CTransaction \<Rightarrow> int32
     \<Rightarrow> LockPoints option \<Rightarrow> bool \<Rightarrow> fault + (bool \<times> LockPoints option \<times> effect list)" where
  "CheckSequenceLocks c cops chain view tx flags lp useExistingLockPoints =
     (case Tip chain of
        None \<Rightarrow> Inl NullDereference
      | Some tip \<Rightarrow>
          (let index = CBlockIndex (CBlockIndex.nHeight tip + 1) 0 (Some tip) in
           if useExistingLockPoints then
             (case lp of
                None \<Rightarrow> Inl AssertionFailed
              | Some l \<Rightarrow>
                  (case EvaluateSequenceLocks cops index (height l, time l) of
                     Inl f \<Rightarrow> Inl f
                   | Inr ok \<Rightarrow> Inr (ok, lp, [])))
           else
             (case CheckSequenceLocks_heights c view tip (vin tx) of
                None \<Rightarrow> Inr (False, lp, [Log ''CheckSequenceLocks: Missing input''])
              | Some prevheights \<Rightarrow>
                  (case CalculateSequenceLocks c cops tx flags prevheights index of
                     Inl f \<Rightarrow> Inl f
                   | Inr (prevheights1, lockPair) \<Rightarrow>
                       (let lp1 =
                              (case lp of
                                 None \<Rightarrow> None
                               | Some l \<Rightarrow>
                                   Some (l\<lparr> height := fst lockPair, time := snd lockPair,
                                            maxInputBlock :=
                                              GetAncestor cops tip
                                                (CheckSequenceLocks_maxInputHeight tip
                                                   prevheights1) \<rparr>))
                        in case EvaluateSequenceLocks cops index lockPair of
                             Inl f \<Rightarrow> Inl f
                           | Inr ok \<Rightarrow> Inr (ok, lp1, []))))))"


section \<open>\<open>GetP2SHSigOpCount\<close> and \<open>LimitMempoolSize\<close>\<close>

text \<open>
  Modelled from the spec: \<open>AccessCoin\<close> belongs to the coin view, outside the sources.  It
  gives the coin of an outpoint, and the empty coin (null output) when there is none.
\<close>

definition coinEmpty :: Coin where
  "coinEmpty = \<lparr> out = \<lparr> nValue = - 1, scriptPubKey = [] \<rparr>, fCoinBase = False, nHeight = 0 \<rparr>"

definition AccessCoin :: "CCoinsView \<Rightarrow> COutPoint \<Rightarrow> Coin" where
  "AccessCoin view outpoint = (case view outpoint of None \<Rightarrow> coinEmpty | Some coin \<Rightarrow> coin)"

definition GetP2SHSigOpCount :: "tx_ops \<Rightarrow> CTransaction \<Rightarrow> CCoinsView \<Rightarrow> uint32" where
  "GetP2SHSigOpCount ops tx inputs =
     (if IsCoinBase ops tx then 0
      else foldl (\<lambda>nSigOps txin.
                    (let prevout_script = scriptPubKey (out (AccessCoin inputs (prevout txin))) in
                     if IsPayToScriptHash ops prevout_script
                     then nSigOps + GetSigOpCount_scriptSig ops prevout_script (scriptSig txin)
                     else nSigOps))
             0 (vin tx))"

text \<open>
  \<open>LimitMempoolSize\<close> acts on the pool and the view only through calls; its trace is what
  matters here.  \<open>expired\<close> and \<open>trimmed\<close> are the outpoints that \<open>pool.Expire\<close> and
  \<open>pool.TrimToSize\<close> hand back.
\<close>

definition LimitMempoolSize :: "nat \<times> COutPoint list \<Rightarrow> COutPoint list \<Rightarrow> effect list" where
  "LimitMempoolSize expired trimmed =
     [PoolExpire] @ map ViewUncache (snd expired)
     @ (if fst expired \<noteq> 0 then [Log ''Expired transactions from the memory pool''] else [])
     @ [PoolTrimToSize] @ map ViewUncache trimmed"

section \<open>\<open>AcceptToMemoryPoolWorker\<close>\<close>

text \<open>
  What one call of \<open>AcceptToMemoryPoolWorker\<close> reads from components outside the sources.
  \<open>pcoinsTip\<close> is the UTXO view, \<open>pool_outputs\<close> the outputs of the transactions in \<open>pool\<close>
  and \<open>mempool_outputs\<close> those of the global \<open>mempool\<close>, which \<open>CheckSequenceLocks\<close>
  consults.  The values that the code computes in floating point, or from statics fed by
  earlier calls, are inputs: \<open>AllowFree\<close> (the priority test), \<open>minRelayTxFee_updated\<close> (the
  fee at the relay rate after the decay and congestion update) and \<open>freeRelayLimitReached\<close>
  (the test of the decayed free-relay counter).
\<close>

record mempool_env =
  fRequireStandard :: bool
  IsStandardTx :: "CTransaction \<Rightarrow> string option"
  GetAdjustedTime :: int64
  pool_exists :: "uint256 \<Rightarrow> bool"
  mapNextTx_find :: "COutPoint \<Rightarrow> bool"
  pcoinsTip :: CCoinsView
  HaveCoinInCache :: "COutPoint \<Rightarrow> bool"
  pool_outputs :: CCoinsView
  mempool_outputs :: CCoinsView
  GetValueIn :: "CCoinsView \<Rightarrow> CTransaction \<Rightarrow> int64"
  AreInputsStandard :: "CTransaction \<Rightarrow> CCoinsView \<Rightarrow> bool"
  ApplyDeltas :: "uint256 \<Rightarrow> int64 \<Rightarrow> int64"
  GetTxSize :: "CTransaction \<Rightarrow> uint32"
  nBytesPerSigOp :: uint32
  mempoolRejectFee :: "uint32 \<Rightarrow> int64"
  relaypriority :: bool
  minRelayTxFee :: "uint32 \<Rightarrow> int64"
  AllowFree :: bool
  minRelayTxFee_updated :: "uint32 \<Rightarrow> int64"
  freeRelayLimitReached :: bool
  CalculateMemPoolAncestors :: "string option"
  Expire_result :: "nat \<times> COutPoint list"
  TrimToSize_result :: "COutPoint list"
  pool_exists_after_trim :: bool

text \<open>
  Modelled from the spec: \<open>CCoinsViewMemPool\<close> and \<open>CCoinsViewCache\<close> are declared outside
  the sources.  The first is the overlay of the in-pool outputs on the UTXO view.  The
  second, the local \<open>view\<close> of the worker, holds after \<open>HaveCoin\<close> or \<open>GetValueIn\<close> the
  coins of the inputs of the transaction that its backend has, and nothing else once the
  backend is the empty \<open>dummy\<close>.
\<close>

definition CCoinsViewMemPool :: "CCoinsView \<Rightarrow> CCoinsView \<Rightarrow> CCoinsView" where
  "CCoinsViewMemPool base outputs =
     (\<lambda>outpoint. case outputs outpoint of Some coin \<Rightarrow> Some coin | None \<Rightarrow> base outpoint)"

definition cached_inputs :: "CCoinsView \<Rightarrow> CTransaction \<Rightarrow> CCoinsView" where
  "cached_inputs backend tx =
     (\<lambda>outpoint. if list_ex (\<lambda>txin. prevout txin = outpoint) (vin tx) then backend outpoint
                 else None)"

definition worker_view :: "mempool_env \<Rightarrow> CTransaction \<Rightarrow> CCoinsView" where
  "worker_view env tx = cached_inputs (CCoinsViewMemPool (pcoinsTip env) (pool_outputs env)) tx"

text \<open>
  The result of the worker: the returned flag with the state, the value behind
  \<open>pfMissingInputs\<close> (\<open>None\<close> for a null pointer), \<open>vCoinsToUncache\<close>, and the effects.
\<close>

type_synonym worker_result =
  "(bool \<times> CValidationState) \<times> bool option \<times> COutPoint list \<times> effect list"

text \<open>
  The tests up to the conflict check (structure, coinbase, standardness, finality, already
  known, conflict with the pool).  \<open>Some\<close> is the return of the worker.
\<close>

definition AcceptToMemoryPoolWorker_early ::
  "constants \<Rightarrow> tx_ops \<Rightarrow> chain_ops \<Rightarrow> chain_state \<Rightarrow> mempool_env \<Rightarrow> CValidationState
     \<Rightarrow> CTransaction \<Rightarrow> fault + (bool \<times> CValidationState) option" where
  "AcceptToMemoryPoolWorker_early c ops cops chain env state tx =
     (case CheckTransaction ops tx of
        Some (level, code, reason) \<Rightarrow> Inr (Some (DoS level False code reason False state))
      | None \<Rightarrow>
          if IsCoinBase ops tx \<or> IsCoinStake ops tx then
            Inr (Some (DoS 100 False REJECT_INVALID ''coinbase'' False state))
          else
            (case (if fRequireStandard env then IsStandardTx env tx else None) of
               Some reason \<Rightarrow> Inr (Some (DoS 0 False REJECT_NONSTANDARD reason False state))
             | None \<Rightarrow>
                 (case CheckFinalTx c cops chain (GetAdjustedTime env) tx
                         (STANDARD_LOCKTIME_VERIFY_FLAGS c) of
                    Inl f \<Rightarrow> Inl f
                  | Inr False \<Rightarrow>
                      Inr (Some (DoS 0 False REJECT_NONSTANDARD ''non-final'' False state))
                  | Inr True \<Rightarrow>
                      if pool_exists env (GetHash ops tx) then
                        Inr (Some (Invalid False REJECT_ALREADY_KNOWN ''txn-already-in-mempool''
                                     state))
                      else if list_ex (\<lambda>txin. mapNextTx_find env (prevout txin)) (vin tx) then
                        Inr (Some (Invalid False REJECT_CONFLICT ''txn-mempool-conflict'' state))
                      else Inr None)))"

text \<open>
  The loop ``do all inputs exist?'': it collects the outpoints not yet in the cache of the
  UTXO view and notes whether an input has no coin.  Each \<open>view.HaveCoin\<close> is recorded,
  since it may pull the coin into that cache.
\<close>

fun AcceptToMemoryPoolWorker_exist ::
  "mempool_env \<Rightarrow> CTxIn list \<Rightarrow> bool \<times> COutPoint list \<times> effect list
     \<Rightarrow> bool \<times> COutPoint list \<times> effect list" where
  "AcceptToMemoryPoolWorker_exist env [] locals = locals"
| "AcceptToMemoryPoolWorker_exist env (txin # rest) (fMissingInputs, vCoinsToUncache, tr) =
     AcceptToMemoryPoolWorker_exist env rest
       (if CCoinsViewMemPool (pcoinsTip env) (pool_outputs env) (prevout txin) = None then True
        else fMissingInputs,
        if \<not> HaveCoinInCache env (prevout txin) then vCoinsToUncache @ [prevout txin]
        else vCoinsToUncache,
        tr @ [ViewHaveCoin (prevout txin)])"

text \<open>
  The rate limiter of free transactions and the two absurd-fee tests.  \<open>Return\<close> is the
  return of the worker with the effects so far, \<open>Next\<close> the effects of a run that goes on.
\<close>

definition AcceptToMemoryPoolWorker_limiter ::
  "mempool_env \<Rightarrow> CValidationState \<Rightarrow> CTransaction \<Rightarrow> bool \<Rightarrow> bool \<Rightarrow> int64 \<Rightarrow> int64 \<Rightarrow> uint32
     \<Rightarrow> effect list \<Rightarrow> ((bool \<times> CValidationState) \<times> effect list, effect list) flow" where
  "AcceptToMemoryPoolWorker_limiter env state tx fLimitFree fRejectAbsurdFee nFees nModifiedFees
     nSize tr0 =
     (let tr1 = tr0 @ [SetMinRelayTxFee, Log ''MempoolBytes LimitFreeRelay FeeCutOff''];
          limited = (fLimitFree \<and> nModifiedFees <s minRelayTxFee_updated env nSize)
      in if limited \<and> freeRelayLimitReached env then
           Return (DoS 0 False REJECT_INSUFFICIENTFEE ''rate limited free transaction'' False
                     state,
                   tr1 @ [FreeCountDecay])
         else
           (let tr2 = tr1 @ (if limited
                             then [FreeCountDecay, Log ''Rate limit dFreeCount'',
                                   FreeCountAdd nSize]
                             else [])
            in if fRejectAbsurdFee \<and> nVersion tx = 1
                  \<and> minRelayTxFee_updated env nSize * 10000 <s nFees then
                 Return (Invalid False REJECT_HIGHFEE ''absurdly-high-fee'' state,
                         tr2 @ [Log ''Absurdly-high-fee for tx with version of 1''])
               else if fRejectAbsurdFee \<and> nVersion tx = 2 \<and> 100000000 <s nFees then
                 Return (Invalid False REJECT_HIGHFEE ''absurdly-high-fee'' state,
                         tr2 @ [Log ''Absurdly-high-fee for tx with version of 2''])
               else Next tr2))"

text \<open>The signature-operation and fee tests, from \<open>GetLegacySigOpCount\<close> on.\<close>

definition AcceptToMemoryPoolWorker_fees ::
  "constants \<Rightarrow> tx_ops \<Rightarrow> mempool_env \<Rightarrow> CValidationState \<Rightarrow> CTransaction \<Rightarrow> bool \<Rightarrow> bool
     \<Rightarrow> int64 \<Rightarrow> effect list
     \<Rightarrow> ((bool \<times> CValidationState) \<times> effect list, effect list) flow" where
  "AcceptToMemoryPoolWorker_fees c ops env state tx fLimitFree fRejectAbsurdFee nValueIn tr0 =
     (let nSigOps = GetLegacySigOpCount ops tx + GetP2SHSigOpCount ops tx (worker_view env tx);
          nValueOut = GetValueOut ops tx;
          nFees = nValueIn - nValueOut;
          nModifiedFees = ApplyDeltas env (GetHash ops tx) nFees;
          nSize = GetTxSize env tx
      in if MAX_STANDARD_TX_SIGOPS c < nSigOps
            \<or> (nBytesPerSigOp env \<noteq> 0 \<and> nSize div nBytesPerSigOp env < nSigOps) then
           Return (DoS 0 False REJECT_NONSTANDARD ''bad-txns-too-many-sigops'' False state, tr0)
         else if 0 <s mempoolRejectFee env nSize
                 \<and> nModifiedFees <s mempoolRejectFee env nSize then
           Return (DoS 0 False REJECT_INSUFFICIENTFEE ''mempool min fee not met'' False state,
                   tr0)
         else if relaypriority env \<and> nModifiedFees <s minRelayTxFee env nSize
                 \<and> \<not> AllowFree env then
           Return (DoS 0 False REJECT_INSUFFICIENTFEE ''insufficient priority'' False state,
                   tr0)
         else AcceptToMemoryPoolWorker_limiter env state tx fLimitFree fRejectAbsurdFee nFees
                nModifiedFees nSize tr0)"

text \<open>The policy tests, from \<open>view.GetValueIn\<close> to the two absurd-fee tests.  The entry built
  for the pool (priority, \<open>fSpendsCoinbase\<close>, lock points) only travels to
  \<open>pool.addUnchecked\<close> and is left out.\<close>

definition AcceptToMemoryPoolWorker_policy ::
  "constants \<Rightarrow> tx_ops \<Rightarrow> chain_ops \<Rightarrow> chain_state \<Rightarrow> mempool_env \<Rightarrow> CValidationState
     \<Rightarrow> CTransaction \<Rightarrow> bool \<Rightarrow> bool
     \<Rightarrow> fault + ((bool \<times> CValidationState) \<times> effect list, effect list) flow" where
  "AcceptToMemoryPoolWorker_policy c ops cops chain env state tx fLimitFree fRejectAbsurdFee =
     (let nValueIn = GetValueIn env (CCoinsViewMemPool (pcoinsTip env) (pool_outputs env)) tx;
          tr0 = [ViewGetValueIn (GetHash ops tx)]
      in case CheckSequenceLocks c cops chain
                (CCoinsViewMemPool (pcoinsTip env) (mempool_outputs env)) tx
                (STANDARD_LOCKTIME_VERIFY_FLAGS c)
                (Some \<lparr> height = 0, time = 0, maxInputBlock = None \<rparr>) False of
           Inl f \<Rightarrow> Inl f
         | Inr (False, lp, tr) \<Rightarrow>
             Inr (Return (DoS 0 False REJECT_NONSTANDARD ''non-BIP68-final'' False state,
                          tr0 @ tr))
         | Inr (True, lp, tr) \<Rightarrow>
             if fRequireStandard env \<and> \<not> AreInputsStandard env tx (worker_view env tx) then
               Inr (Return (Invalid False REJECT_NONSTANDARD ''bad-txns-nonstandard-inputs''
                              state, tr0 @ tr))
             else Inr (AcceptToMemoryPoolWorker_fees c ops env state tx fLimitFree
                         fRejectAbsurdFee nValueIn (tr0 @ tr)))"

text \<open>
  The two script passes and the insertion into the pool.  The second pass runs on the
  state that the first one leaves.
\<close>

definition bug_message :: string where
  "bug_message = ''AcceptToMemoryPoolWorker: BUG! PLEASE REPORT THIS! ConnectInputs failed against MANDATORY but not STANDARD flags''"

definition AcceptToMemoryPoolWorker_insert ::
  "tx_ops \<Rightarrow> mempool_env \<Rightarrow> CValidationState \<Rightarrow> CTransaction \<Rightarrow> bool
     \<Rightarrow> (bool \<times> CValidationState) \<times> effect list" where
  "AcceptToMemoryPoolWorker_insert ops env state tx fOverrideMempoolLimit =
     (case CalculateMemPoolAncestors env of
        Some errString \<Rightarrow>
          (DoS 0 False REJECT_NONSTANDARD ''too-long-mempool-chain'' False state, [])
      | None \<Rightarrow>
          (let tr = [PoolAddUnchecked (GetHash ops tx)] in
           if \<not> fOverrideMempoolLimit then
             (let tr1 = tr @ LimitMempoolSize (Expire_result env) (TrimToSize_result env) in
              if \<not> pool_exists_after_trim env then
                (DoS 0 False REJECT_INSUFFICIENTFEE ''mempool full'' False state, tr1)
              else ((True, state), tr1 @ [TransactionAddedToMempool (GetHash ops tx)]))
           else ((True, state), tr @ [TransactionAddedToMempool (GetHash ops tx)])))"

definition AcceptToMemoryPoolWorker_scripts ::
  "constants \<Rightarrow> tx_ops \<Rightarrow> script_ops \<Rightarrow> chain_state \<Rightarrow> mempool_env \<Rightarrow> CValidationState
     \<Rightarrow> CTransaction \<Rightarrow> bool \<Rightarrow> fault + (bool \<times> CValidationState) \<times> effect list" where
  "AcceptToMemoryPoolWorker_scripts c ops sc chain env state tx fOverrideMempoolLimit =
     (let view = worker_view env tx in
      case CheckInputs c ops sc chain tx state view True (STANDARD_SCRIPT_VERIFY_FLAGS c) True
             False of
        Inl f \<Rightarrow> Inl f
      | Inr ((False, state1), pushed) \<Rightarrow>
          Inr ((False, state1), [Log ''CheckInputs failed for tx''])
      | Inr ((True, state1), pushed) \<Rightarrow>
          (case CheckInputs c ops sc chain tx state1 view True (MANDATORY_SCRIPT_VERIFY_FLAGS c)
                  True False of
             Inl f \<Rightarrow> Inl f
           | Inr ((False, state2), pushed2) \<Rightarrow> Inr ((False, state2), [Log bug_message])
           | Inr ((True, state2), pushed2) \<Rightarrow>
               Inr (AcceptToMemoryPoolWorker_insert ops env state2 tx fOverrideMempoolLimit)))"

text \<open>
  \<open>AcceptToMemoryPoolWorker\<close>.  \<open>pfMissingInputs\<close> is \<open>None\<close> for a null pointer and otherwise
  holds the value of the caller's variable before the call.
\<close>

definition AcceptToMemoryPoolWorker ::
  "constants \<Rightarrow> tx_ops \<Rightarrow> chain_ops \<Rightarrow> script_ops \<Rightarrow> chain_state \<Rightarrow> mempool_env
     \<Rightarrow> CValidationState \<Rightarrow> CTransaction \<Rightarrow> bool \<Rightarrow> bool option \<Rightarrow> bool \<Rightarrow> bool
     \<Rightarrow> fault + worker_result" where
  "AcceptToMemoryPoolWorker c ops cops sc chain env state tx fLimitFree pfMissingInputs
     fOverrideMempoolLimit fRejectAbsurdFee =
     (case AcceptToMemoryPoolWorker_early c ops cops chain env state tx of
        Inl f \<Rightarrow> Inl f
      | Inr (Some r) \<Rightarrow> Inr (r, pfMissingInputs, [], [])
      | Inr None \<Rightarrow>
          (let (fMissingInputs, vCoinsToUncache, tr) =
                 (if pfMissingInputs \<noteq> None
                  then AcceptToMemoryPoolWorker_exist env (vin tx) (False, [], [])
                  else (False, [], []));
               missing = (if pfMissingInputs \<noteq> None then Some fMissingInputs else None)
           in if fMissingInputs then Inr ((False, state), missing, vCoinsToUncache, tr)
              else
                (case AcceptToMemoryPoolWorker_policy c ops cops chain env state tx fLimitFree
                        fRejectAbsurdFee of
                   Inl f \<Rightarrow> Inl f
                 | Inr (Return (r, tr1)) \<Rightarrow> Inr (r, missing, vCoinsToUncache, tr @ tr1)
                 | Inr (Next tr1) \<Rightarrow>
                     (case AcceptToMemoryPoolWorker_scripts c ops sc chain env state tx
                             fOverrideMempoolLimit of
                        Inl f \<Rightarrow> Inl f
                      | Inr (r, tr2) \<Rightarrow> Inr (r, missing, vCoinsToUncache, tr @ tr1 @ tr2)))))"

text \<open>The run of the worker comes to the script checks: no earlier test returns.\<close>

definition reaches_script_checks ::
  "constants \<Rightarrow> tx_ops \<Rightarrow> chain_ops \<Rightarrow> chain_state \<Rightarrow> mempool_env \<Rightarrow> CValidationState
     \<Rightarrow> CTransaction \<Rightarrow> bool \<Rightarrow> bool option \<Rightarrow> bool \<Rightarrow> bool" where
  "reaches_script_checks c ops cops chain env state tx fLimitFree pfMissingInputs
     fRejectAbsurdFee =
     (AcceptToMemoryPoolWorker_early c ops cops chain env state tx = Inr None
      \<and> (pfMissingInputs = None
           \<or> \<not> fst (AcceptToMemoryPoolWorker_exist env (vin tx) (False, [], [])))
      \<and> (case AcceptToMemoryPoolWorker_policy c ops cops chain env state tx fLimitFree
                  fRejectAbsurdFee of
             Inr (Next tr) \<Rightarrow> True
           | _ \<Rightarrow> False))"

text \<open>
  The transactions of the missing-input scenario: structurally valid, neither coinbase nor
  coinstake, with an input whose coin is neither in the UTXO view nor among the in-pool
  outputs.
\<close>

definition orphan_transaction :: "tx_ops \<Rightarrow> mempool_env \<Rightarrow> CTransaction \<Rightarrow> bool" where
  "orphan_transaction ops env tx \<longleftrightarrow>
     CheckTransaction ops tx = None \<and> \<not> IsCoinBase ops tx \<and> \<not> IsCoinStake ops tx
     \<and> list_ex (\<lambda>txin. pcoinsTip env (prevout txin) = None
                        \<and> pool_outputs env (prevout txin) = None) (vin tx)"

section \<open>\<open>AcceptToMemoryPool\<close>\<close>

text \<open>
  The wrapper uncaches the collected coins when the worker refuses the transaction for
  another cause than missing inputs, and only if the caller passed \<open>pfMissingInputs\<close>.
\<close>

definition AcceptToMemoryPool ::
  "constants \<Rightarrow> tx_ops \<Rightarrow> chain_ops \<Rightarrow> script_ops \<Rightarrow> chain_state \<Rightarrow> mempool_env
     \<Rightarrow> CValidationState \<Rightarrow> CTransaction \<Rightarrow> bool \<Rightarrow> bool option \<Rightarrow> bool \<Rightarrow> bool
     \<Rightarrow> fault + (bool \<times> CValidationState) \<times> bool option \<times> effect list" where
  "AcceptToMemoryPool c ops cops sc chain env state tx fLimitFree pfMissingInputs
     fOverrideMempoolLimit fRejectAbsurdFee =
     (case AcceptToMemoryPoolWorker c ops cops sc chain env state tx fLimitFree pfMissingInputs
             fOverrideMempoolLimit fRejectAbsurdFee of
        Inl f \<Rightarrow> Inl f
      | Inr ((res, state1), missing, vCoinsToUncache, tr) \<Rightarrow>
          Inr ((res, state1), missing,
               tr @ (if missing \<noteq> None \<and> \<not> res \<and> missing \<noteq> Some True
                     then map ViewUncache vCoinsToUncache else [])))"

section \<open>Example chain and transactions for concrete runs\<close>

text \<open>
  A three-entry chain.  For the concrete runs \<open>GetAncestor\<close> walks the \<open>pprev\<close> links
  down to the requested height and \<open>GetMedianTimePast\<close> reads the entry's own time.
\<close>

fun example_GetAncestor :: "CBlockIndex \<Rightarrow> int32 \<Rightarrow> CBlockIndex option" where
  "example_GetAncestor (CBlockIndex ht tm prev) wanted =
     (if ht = wanted then Some (CBlockIndex ht tm prev)
      else case prev of None \<Rightarrow> None | Some p \<Rightarrow> example_GetAncestor p wanted)"

definition example_ops :: chain_ops where
  "example_ops = \<lparr> GetMedianTimePast = (\<lambda>b. ucast (nTimeOfBlock b)), GetAncestor = example_GetAncestor \<rparr>"

definition example_genesis :: CBlockIndex where
  "example_genesis = CBlockIndex 0 1000 None"

definition example_block1 :: CBlockIndex where
  "example_block1 = CBlockIndex 1 2000 (Some example_genesis)"

definition example_block2 :: CBlockIndex where
  "example_block2 = CBlockIndex 2 3000 (Some example_block1)"

definition example_txin :: "uint32 \<Rightarrow> CTxIn" where
  "example_txin s = \<lparr> prevout = \<lparr> hash = 7, n = 0 \<rparr>, scriptSig = [], nSequence = s \<rparr>"

definition example_tx :: "int32 \<Rightarrow> uint32 \<Rightarrow> CTxIn list \<Rightarrow> CTransaction" where
  "example_tx ver lock ins =
     \<lparr> nVersion = ver, nTime = 0, vin = ins, vout = [], nLockTime = lock,
       serviceReferenceHash = 0 \<rparr>"

definition example_locked_tx :: CTransaction where
  "example_locked_tx = example_tx 2 0 [example_txin 0x80000005, example_txin 0x00400002]"


definition example_tx_ops :: tx_ops where
  "example_tx_ops =
     \<lparr> IsCoinBase = (\<lambda>tx. length (vin tx) = 1 \<and> hash (prevout (hd (vin tx))) = 0),
       IsCoinStake = (\<lambda>tx. vin tx \<noteq> [] \<and> hash (prevout (hd (vin tx))) \<noteq> 0
                           \<and> 2 \<le> length (vout tx) \<and> nValue (hd (vout tx)) = 0),
       GetValueOut = (\<lambda>tx. sum_list (map nValue (vout tx))),
       GetHash = (\<lambda>tx. ucast (nLockTime tx) + 1),
       GetCoinAge = (\<lambda>tx. Some 0),
       GetCoinAge_byValue = (\<lambda>tx age. age),
       CheckTransaction = (\<lambda>tx. if vin tx = [] then Some (10, REJECT_INVALID, ''bad-txns-vin-empty'')
                                else None),
       IsEmpty = (\<lambda>txout. nValue txout = 0 \<and> scriptPubKey txout = []),
       GetSigOpCount = (\<lambda>script fAccurate. of_nat (length (filter (\<lambda>b. b = 0xac) script))),
       GetSigOpCount_scriptSig = (\<lambda>script scriptSig. 0),
       IsPayToScriptHash = (\<lambda>script. length script = 23) \<rparr>"

definition example_chain_state :: "int32 \<Rightarrow> chain_state" where
  "example_chain_state tipHeight =
     \<lparr> Tip = Some (CBlockIndex tipHeight 5000 None),
       bestBlockIndex = Some (CBlockIndex tipHeight 5000 None),
       GetProofOfStakeReward = (\<lambda>nCoinAge nSpendHeight. 0) \<rparr>"

definition example_state :: CValidationState where
  "example_state =
     \<lparr> mode = MODE_VALID, nDoS = 0, strRejectReason = [], chRejectCode = REJECT_NONE,
       corruptionPossible = False \<rparr>"

definition example_coin :: "int64 \<Rightarrow> bool \<Rightarrow> uint32 \<Rightarrow> Coin" where
  "example_coin v cb coinHeight =
     \<lparr> out = \<lparr> nValue = v, scriptPubKey = [] \<rparr>, fCoinBase = cb, nHeight = coinHeight \<rparr>"

definition example_view :: "Coin \<Rightarrow> CCoinsView" where
  "example_view coin = (\<lambda>outpoint. if hash outpoint = 7 \<and> n outpoint = 0 then Some coin else None)"

definition example_spend :: "int64 \<Rightarrow> CTransaction" where
  "example_spend v =
     \<lparr> nVersion = 1, nTime = 0, vin = [example_txin 0xffffffff], vout = [\<lparr> nValue = v, scriptPubKey = [] \<rparr>],
       nLockTime = 0, serviceReferenceHash = 0 \<rparr>"



definition example_block_ops :: block_ops where
  "example_block_ops =
     \<lparr> IsProofOfWork = (\<lambda>b. True), IsProofOfStake = (\<lambda>b. False),
       CheckProofOfWork = (\<lambda>b. True), CheckBlockHeader = (\<lambda>b fCheckPOW. None),
       BlockMerkleRoot = (\<lambda>b. (hashMerkleRoot b, False)),
       GetSerializeSize = (\<lambda>b. 200 * length (vtx b)),
       GetBlockTime = (\<lambda>b. 5000), CheckBlockSignature = (\<lambda>b. True) \<rparr>"

definition example_coinbase :: CTransaction where
  "example_coinbase =
     \<lparr> nVersion = 1, nTime = 5000,
       vin = [\<lparr> prevout = \<lparr> hash = 0, n = 0xffffffff \<rparr>, scriptSig = [], nSequence = 0xffffffff \<rparr>],
       vout = [\<lparr> nValue = 50, scriptPubKey = [] \<rparr>], nLockTime = 0, serviceReferenceHash = 0 \<rparr>"

definition example_payment :: "int32 \<Rightarrow> uint32 \<Rightarrow> CTransaction" where
  "example_payment ver stamp =
     \<lparr> nVersion = ver, nTime = stamp, vin = [example_txin 0xffffffff],
       vout = [\<lparr> nValue = 40, scriptPubKey = [] \<rparr>], nLockTime = 0, serviceReferenceHash = 99 \<rparr>"

definition example_cblock :: "CTransaction list \<Rightarrow> bool \<Rightarrow> CBlock" where
  "example_cblock txs checked = \<lparr> hashMerkleRoot = 0, vtx = txs, fChecked = checked \<rparr>"

definition example_service_absent :: "nat service_ops" where
  "example_service_absent =
     \<lparr> lookup = (\<lambda>h. None),
       CheckServiceTransaction = (\<lambda>stx tx state. (True, state)),
       ProcessServiceCommand = (\<lambda>stx tx state. state) \<rparr>"

definition example_service_failing :: "nat service_ops" where
  "example_service_failing =
     \<lparr> lookup = (\<lambda>h. Some 0),
       CheckServiceTransaction =
         (\<lambda>stx tx state. DoS 10 False REJECT_INVALID ''bad-stx'' False state),
       ProcessServiceCommand = (\<lambda>stx tx state. state) \<rparr>"

text \<open>An input whose coin is unknown, a mempool environment and two script interpreters.\<close>

definition example_orphan_txin :: "uint32 \<Rightarrow> CTxIn" where
  "example_orphan_txin s = \<lparr> prevout = \<lparr> hash = 9, n = 0 \<rparr>, scriptSig = [], nSequence = s \<rparr>"

definition example_mempool_env :: mempool_env where
  "example_mempool_env =
     \<lparr> fRequireStandard = True,
       IsStandardTx = (\<lambda>tx. if nVersion tx = 4 then Some ''version'' else None),
       GetAdjustedTime = 6000,
       pool_exists = (\<lambda>h. h = 1000),
       mapNextTx_find = (\<lambda>outpoint. hash outpoint = 8),
       pcoinsTip = example_view (example_coin 50 False 1),
       HaveCoinInCache = (\<lambda>outpoint. False),
       pool_outputs = (\<lambda>outpoint. None),
       mempool_outputs = (\<lambda>outpoint. None),
       GetValueIn = (\<lambda>view tx. sum_list (map (\<lambda>txin. nValue (out (AccessCoin view (prevout txin))))
                                             (vin tx))),
       AreInputsStandard = (\<lambda>tx view. True),
       ApplyDeltas = (\<lambda>h fee. fee),
       GetTxSize = (\<lambda>tx. 200),
       nBytesPerSigOp = 20,
       mempoolRejectFee = (\<lambda>nSize. 0),
       relaypriority = True,
       minRelayTxFee = (\<lambda>nSize. 5),
       AllowFree = False,
       minRelayTxFee_updated = (\<lambda>nSize. 5),
       freeRelayLimitReached = False,
       CalculateMemPoolAncestors = None,
       Expire_result = (0, []),
       TrimToSize_result = [],
       pool_exists_after_trim = True \<rparr>"

text \<open>
  Three script interpreters for the concrete runs.  The first one refuses a non-empty
  locking script when flag \<open>2\<close> is set.  The second one accepts only under flag \<open>2\<close>: a
  script passes the standard flags and fails the mandatory ones.  The third one accepts
  nothing.
\<close>

definition example_script_ops :: script_ops where
  "example_script_ops =
     \<lparr> VerifyScript = (\<lambda>unlock lock flags tx i cacheStore.
                          if flags AND 2 \<noteq> 0 \<and> lock \<noteq> [] then Some ''non-canonical''
                          else None) \<rparr>"

definition example_lenient_script_ops :: script_ops where
  "example_lenient_script_ops =
     \<lparr> VerifyScript = (\<lambda>unlock lock flags tx i cacheStore.
                          if flags AND 2 = 0 then Some ''checksig-not'' else None) \<rparr>"

definition example_failing_script_ops :: script_ops where
  "example_failing_script_ops =
     \<lparr> VerifyScript = (\<lambda>unlock lock flags tx i cacheStore. Some ''eval-false'') \<rparr>"

section \<open>Facts about the integer conversions\<close>

lemma sint_ucast_32_64: "sint (ucast (x :: 32 word) :: 64 word) = uint x"
proof -
  have u: "uint (ucast x :: 64 word) = uint x"
    by (simp add: uint_up_ucast is_up)
  have hi: "uint x < 4294967296"
    using uint_bounded [of x] by simp
  have lo: "0 \<le> uint x"
    by simp
  have "- (2 ^ 63) \<le> (0::int)"
    by simp
  then have l: "- (2 ^ 63) \<le> uint x"
    using lo by (rule order_trans)
  have "(4294967296::int) < 2 ^ 63"
    by simp
  with hi have h: "uint x < 2 ^ 63"
    by (rule less_trans)
  from l h have "signed_take_bit 63 (uint x) = uint x"
    by (rule signed_take_bit_int_eq_self)
  then show ?thesis
    by (simp add: sint_uint u)
qed

lemma sint_scast_32_64: "sint (scast (x :: 32 word) :: 64 word) = sint x"
  by (simp add: sint_up_scast is_up)

lemma sint_smax: "sint (smax a b) = max (sint a) (sint b)"
  by (simp add: smax_def word_sless_alt max_def)

section \<open>Properties of \<open>IsFinalTx\<close>\<close>

lemma IsFinalTx_inputs_iff:
  "IsFinalTx_inputs c ins \<longleftrightarrow> (\<forall>txin \<in> set ins. nSequence txin = SEQUENCE_FINAL c)"
  by (induction ins) simp_all

text \<open>
  Claim C1.  For every transaction, block height \<open>h\<close> and block time \<open>t\<close>, \<open>IsFinalTx\<close>
  returns true exactly when \<open>nLockTime\<close> is zero, or \<open>nLockTime\<close> is strictly below \<open>h\<close>
  (when it is below \<open>LOCKTIME_THRESHOLD\<close>) respectively strictly below \<open>t\<close> (otherwise),
  or every input carries \<open>SEQUENCE_FINAL\<close>.  In particular a zero \<open>nLockTime\<close> gives true
  whatever \<open>h\<close> and \<open>t\<close> are, and all-final inputs give true whatever \<open>nLockTime\<close> is.
\<close>

theorem IsFinalTx_characterisation:
  "(IsFinalTx c tx h t \<longleftrightarrow>
      nLockTime tx = 0
      \<or> (if uint (nLockTime tx) < uint (LOCKTIME_THRESHOLD c)
         then uint (nLockTime tx) < sint h
         else uint (nLockTime tx) < sint t)
      \<or> (\<forall>txin \<in> set (vin tx). nSequence txin = SEQUENCE_FINAL c))
   \<and> (nLockTime tx = 0 \<longrightarrow> IsFinalTx c tx h t)
   \<and> ((\<forall>txin \<in> set (vin tx). nSequence txin = SEQUENCE_FINAL c) \<longrightarrow> IsFinalTx c tx h t)"
  by (simp add: IsFinalTx_def IsFinalTx_inputs_iff word_sless_alt
      sint_ucast_32_64 sint_scast_32_64)


theorem IsFinalTx_characterisation_witness:
  "IsFinalTx example_consts (example_tx 1 0 [example_txin 5]) 10 20
   \<and> IsFinalTx example_consts (example_tx 1 600000000 [example_txin 0xffffffff]) 10 20
   \<and> IsFinalTx example_consts (example_tx 1 7 [example_txin 5]) 10 20
   \<and> \<not> IsFinalTx example_consts (example_tx 1 10 [example_txin 5]) 10 20
   \<and> \<not> IsFinalTx example_consts (example_tx 1 600000000 [example_txin 5]) 10 20"
  using IsFinalTx_characterisation [of example_consts "example_tx 1 0 [example_txin 5]" 10 20]
    IsFinalTx_characterisation
      [of example_consts "example_tx 1 600000000 [example_txin 0xffffffff]" 10 20]
    IsFinalTx_characterisation [of example_consts "example_tx 1 7 [example_txin 5]" 10 20]
    IsFinalTx_characterisation [of example_consts "example_tx 1 10 [example_txin 5]" 10 20]
    IsFinalTx_characterisation [of example_consts "example_tx 1 600000000 [example_txin 5]" 10 20]
  by (simp add: example_consts_def example_tx_def example_txin_def)

section \<open>Properties of \<open>EvaluateSequenceLocks\<close>\<close>

text \<open>
  Claim C2.  For a block index entry whose parent pointer is not null and any lock pair
  (minimum height, minimum time), \<open>EvaluateSequenceLocks\<close> returns true exactly when the
  entry's own height is strictly greater than the minimum height and the parent's
  median-time-past is strictly greater than the minimum time; a tie in either component
  makes it return false.
\<close>

theorem EvaluateSequenceLocks_iff:
  "pprev block = Some prev \<Longrightarrow>
     EvaluateSequenceLocks ops block (minHeight, minTime)
       = Inr (sint minHeight < sint (CBlockIndex.nHeight block)
              \<and> sint minTime < sint (GetMedianTimePast ops prev))
     \<and> EvaluateSequenceLocks ops block (CBlockIndex.nHeight block, minTime) = Inr False
     \<and> EvaluateSequenceLocks ops block (minHeight, GetMedianTimePast ops prev) = Inr False"
  by (auto simp: EvaluateSequenceLocks_def Let_def word_sle_eq)


theorem EvaluateSequenceLocks_iff_witness:
  "pprev example_block2 = Some example_block1
   \<and> EvaluateSequenceLocks example_ops example_block2 (1, 1999) = Inr True
   \<and> EvaluateSequenceLocks example_ops example_block2 (2, 1999) = Inr False
   \<and> EvaluateSequenceLocks example_ops example_block2 (1, 2000) = Inr False"
proof -
  have p: "pprev example_block2 = Some example_block1"
    by (simp add: example_block2_def)
  have m: "GetMedianTimePast example_ops example_block1 = 2000"
    by (simp add: example_ops_def example_block1_def)
  have h: "CBlockIndex.nHeight example_block2 = 2"
    by (simp add: example_block2_def)
  show ?thesis
    using EvaluateSequenceLocks_iff [OF p, of example_ops 1 1999]
      EvaluateSequenceLocks_iff [OF p, of example_ops 2 1999]
      EvaluateSequenceLocks_iff [OF p, of example_ops 1 2000] p
    by (simp add: m h)
qed

section \<open>Properties of \<open>CalculateSequenceLocks\<close>\<close>

lemma lock_upd_other:
  "i < j \<Longrightarrow> height_lock c tx (hs[i := v]) j = height_lock c tx hs j"
  "i < j \<Longrightarrow> time_lock c ops block tx (hs[i := v]) j = time_lock c ops block tx hs j"
  "i < j \<Longrightarrow> null_at c ops block tx (hs[i := v]) j = null_at c ops block tx hs j"
  by (simp_all add: height_lock_def time_lock_def null_at_def Let_def cong: if_cong)

lemma map_filter_cong_set:
  "(\<And>x. x \<in> set xs \<Longrightarrow> f x = g x) \<Longrightarrow> List.map_filter f xs = List.map_filter g xs"
  by (induction xs) (auto split: option.splits)

lemma loop_result:
  "CalculateSequenceLocks_loop c ops block tx i (hs, mh, mt) = Inr (hs', mh', mt') \<Longrightarrow>
     mh' = foldl smax mh (List.map_filter (height_lock c tx hs) [i..<length (vin tx)])
     \<and> mt' = foldl smax mt (List.map_filter (time_lock c ops block tx hs) [i..<length (vin tx)])
     \<and> (\<forall>j. i \<le> j \<and> j < length (vin tx) \<longrightarrow> \<not> null_at c ops block tx hs j)"
proof (induction c ops block tx i "(hs, mh, mt)" arbitrary: hs mh mt rule: CalculateSequenceLocks_loop.induct)
  case (1 c ops block tx i hs mh mt)
  show ?case
  proof (cases "i < length (vin tx)")
    case False
    with "1.prems" show ?thesis
      by (auto simp: CalculateSequenceLocks_loop.simps [of c ops block tx i])
  next
    case True
    then have upt: "[i..<length (vin tx)] = i # [Suc i..<length (vin tx)]"
      by (simp add: upt_conv_Cons)
    let ?s = "nSequence (vin tx ! i)"
    show ?thesis
    proof (cases "?s AND SEQUENCE_LOCKTIME_DISABLE_FLAG c \<noteq> 0")
      case dis: True
      from "1.prems" True dis
      have run: "CalculateSequenceLocks_loop c ops block tx (Suc i) (hs[i := 0], mh, mt) = Inr (hs', mh', mt')"
        by (simp add: CalculateSequenceLocks_loop.simps [of c ops block tx i])
      note ih = "1.hyps"(1) [OF True refl dis run]
      have e1: "List.map_filter (height_lock c tx (hs[i := 0])) [Suc i..<length (vin tx)]
                = List.map_filter (height_lock c tx hs) [Suc i..<length (vin tx)]"
        by (rule map_filter_cong_set) (simp add: lock_upd_other)
      have e2: "List.map_filter (time_lock c ops block tx (hs[i := 0])) [Suc i..<length (vin tx)]
                = List.map_filter (time_lock c ops block tx hs) [Suc i..<length (vin tx)]"
        by (rule map_filter_cong_set) (simp add: lock_upd_other)
      have h0: "height_lock c tx hs i = None" "time_lock c ops block tx hs i = None"
               "\<not> null_at c ops block tx hs i"
        using dis by (simp_all add: height_lock_def time_lock_def null_at_def)
      have e3: "\<And>j. Suc i \<le> j \<Longrightarrow> null_at c ops block tx (hs[i := 0]) j = null_at c ops block tx hs j"
        by (simp add: lock_upd_other)
      have nn: "\<not> null_at c ops block tx hs j" if "i \<le> j" "j < length (vin tx)" for j
      proof (cases "j = i")
        case True
        then show ?thesis using h0 by simp
      next
        case False
        with that have "Suc i \<le> j" by simp
        then show ?thesis using ih that e3 by simp
      qed
      show ?thesis
        using ih h0 nn unfolding upt e1 e2
        by simp
    next
      case en: False
      show ?thesis
      proof (cases "?s AND SEQUENCE_LOCKTIME_TYPE_FLAG c \<noteq> 0")
        case ty: True
        from "1.prems" True en ty obtain ancestor where
          anc: "GetAncestor ops block (smax (hs ! i - 1) 0) = Some ancestor"
          by (cases "GetAncestor ops block (smax (hs ! i - 1) 0)")
             (simp_all add: CalculateSequenceLocks_loop.simps [of c ops block tx i] Let_def)
        let ?v = "GetMedianTimePast ops ancestor
                  + ucast (push_bit (SEQUENCE_LOCKTIME_GRANULARITY c) (?s AND SEQUENCE_LOCKTIME_MASK c)) - 1"
        from "1.prems" True en ty anc
        have run: "CalculateSequenceLocks_loop c ops block tx (Suc i) (hs, mh, smax mt ?v) = Inr (hs', mh', mt')"
          by (simp add: CalculateSequenceLocks_loop.simps [of c ops block tx i] Let_def)
        note ih = "1.hyps"(2) [OF True refl en refl ty anc refl run]
        have h0: "height_lock c tx hs i = None" "time_lock c ops block tx hs i = Some ?v"
                 "\<not> null_at c ops block tx hs i"
          using en ty anc by (simp_all add: height_lock_def time_lock_def null_at_def)
        have nn: "\<not> null_at c ops block tx hs j" if "i \<le> j" "j < length (vin tx)" for j
        proof (cases "j = i")
          case True
          then show ?thesis using h0 by simp
        next
          case False
          with that have "Suc i \<le> j" by simp
          then show ?thesis using ih that by simp
        qed
        show ?thesis
          using ih h0 nn unfolding upt
          by simp
      next
        case ty: False
        let ?v = "hs ! i + (?s AND SEQUENCE_LOCKTIME_MASK c) - 1"
        from "1.prems" True en ty
        have run: "CalculateSequenceLocks_loop c ops block tx (Suc i) (hs, smax mh ?v, mt) = Inr (hs', mh', mt')"
          by (simp add: CalculateSequenceLocks_loop.simps [of c ops block tx i] Let_def)
        note ih = "1.hyps"(3) [OF True refl en refl ty run]
        have h0: "height_lock c tx hs i = Some ?v" "time_lock c ops block tx hs i = None"
                 "\<not> null_at c ops block tx hs i"
          using en ty by (simp_all add: height_lock_def time_lock_def null_at_def)
        have nn: "\<not> null_at c ops block tx hs j" if "i \<le> j" "j < length (vin tx)" for j
        proof (cases "j = i")
          case True
          then show ?thesis using h0 by simp
        next
          case False
          with that have "Suc i \<le> j" by simp
          then show ?thesis using ih that by simp
        qed
        show ?thesis
          using ih h0 nn unfolding upt
          by simp
      qed
    qed
  qed
qed


lemma loop_succeeds:
  "(\<forall>j. i \<le> j \<and> j < length (vin tx) \<longrightarrow> \<not> null_at c ops block tx hs j) \<Longrightarrow>
     \<exists>r. CalculateSequenceLocks_loop c ops block tx i (hs, mh, mt) = Inr r"
proof (induction c ops block tx i "(hs, mh, mt)" arbitrary: hs mh mt rule: CalculateSequenceLocks_loop.induct)
  case (1 c ops block tx i hs mh mt)
  show ?case
  proof (cases "i < length (vin tx)")
    case False
    then show ?thesis
      by (simp add: CalculateSequenceLocks_loop.simps [of c ops block tx i])
  next
    case True
    let ?s = "nSequence (vin tx ! i)"
    have later: "\<not> null_at c ops block tx hs j" if "Suc i \<le> j" "j < length (vin tx)" for j
      using "1.prems" that by simp
    show ?thesis
    proof (cases "?s AND SEQUENCE_LOCKTIME_DISABLE_FLAG c \<noteq> 0")
      case dis: True
      have "\<forall>j. Suc i \<le> j \<and> j < length (vin tx) \<longrightarrow> \<not> null_at c ops block tx (hs[i := 0]) j"
        using later by (simp add: lock_upd_other)
      from "1.hyps"(1) [OF True refl dis this] True dis show ?thesis
        by (simp add: CalculateSequenceLocks_loop.simps [of c ops block tx i])
    next
      case en: False
      have all: "\<forall>j. Suc i \<le> j \<and> j < length (vin tx) \<longrightarrow> \<not> null_at c ops block tx hs j"
        using later by simp
      show ?thesis
      proof (cases "?s AND SEQUENCE_LOCKTIME_TYPE_FLAG c \<noteq> 0")
        case ty: True
        have "\<not> null_at c ops block tx hs i"
          using "1.prems" True by simp
        with en ty obtain ancestor where
          anc: "GetAncestor ops block (smax (hs ! i - 1) 0) = Some ancestor"
          by (auto simp: null_at_def)
        from "1.hyps"(2) [OF True refl en refl ty anc refl all] True en ty anc show ?thesis
          by (simp add: CalculateSequenceLocks_loop.simps [of c ops block tx i])
      next
        case ty: False
        from "1.hyps"(3) [OF True refl en refl ty all] True en ty show ?thesis
          by (simp add: CalculateSequenceLocks_loop.simps [of c ops block tx i])
      qed
    qed
  qed
qed

lemma sint_foldl_smax:
  "sint (foldl smax a xs) = Max (insert (sint a) (sint ` set xs))"
proof (induction xs arbitrary: a)
  case Nil
  show ?case by simp
next
  case (Cons x xs)
  have "sint (foldl smax a (x # xs)) = Max (insert (max (sint a) (sint x)) (sint ` set xs))"
    by (simp add: Cons.IH sint_smax)
  also have "\<dots> = Max (insert (sint a) (sint ` set (x # xs)))"
  proof (cases "xs = []")
    case True
    then show ?thesis by (simp add: max.commute)
  next
    case False
    then have ne: "sint ` set xs \<noteq> {}" by simp
    have fin: "finite (sint ` set xs)" by simp
    show ?thesis
      using ne fin by (simp add: max.assoc)
  qed
  finally show ?case .
qed

lemma and_not_flag_id:
  fixes s :: "'a::len word"
  shows "s AND f = 0 \<Longrightarrow> s AND NOT f = s"
  by (metis and.right_neutral bit.conj_disj_distrib bit.disj_cancel_right or.left_neutral)


lemma clear_disable_flag_length [simp]:
  "length (vin (clear_disable_flag c tx i)) = length (vin tx)"
  by (simp add: clear_disable_flag_def)

lemma clear_disable_flag_nSequence:
  "j < length (vin tx) \<Longrightarrow>
     nSequence (vin (clear_disable_flag c tx i) ! j)
       = (if j = i then nSequence (vin tx ! j) AND NOT (SEQUENCE_LOCKTIME_DISABLE_FLAG c)
          else nSequence (vin tx ! j))"
  by (simp add: clear_disable_flag_def nth_list_update)

lemma clear_disable_flag_enabled:
  assumes "j < length (vin tx)"
    and "nSequence (vin tx ! j) AND SEQUENCE_LOCKTIME_DISABLE_FLAG c = 0"
  shows "nSequence (vin (clear_disable_flag c tx i) ! j) = nSequence (vin tx ! j)"
proof (cases "j = i")
  case True
  with assms show ?thesis
    by (simp add: clear_disable_flag_nSequence and_not_flag_id)
next
  case False
  with assms show ?thesis
    by (simp add: clear_disable_flag_nSequence)
qed

lemma height_lock_clear:
  assumes "j < length (vin tx)" and "height_lock c tx hs j = Some v"
  shows "height_lock c (clear_disable_flag c tx i) hs j = Some v"
proof -
  from assms(2) have "nSequence (vin tx ! j) AND SEQUENCE_LOCKTIME_DISABLE_FLAG c = 0"
    by (simp add: height_lock_def Let_def split: if_splits)
  from clear_disable_flag_enabled [OF assms(1) this, of i] assms(2) show ?thesis
    by (simp add: height_lock_def)
qed

lemma time_lock_clear:
  assumes "j < length (vin tx)" and "time_lock c ops block tx hs j = Some v"
  shows "time_lock c ops block (clear_disable_flag c tx i) hs j = Some v"
proof -
  from assms(2) have "nSequence (vin tx ! j) AND SEQUENCE_LOCKTIME_DISABLE_FLAG c = 0"
    by (simp add: time_lock_def Let_def split: if_splits)
  from clear_disable_flag_enabled [OF assms(1) this, of i] assms(2) show ?thesis
    by (simp add: time_lock_def)
qed

lemma null_at_clear:
  assumes "j < length (vin tx)" and "null_at c ops block tx hs j"
  shows "null_at c ops block (clear_disable_flag c tx i) hs j"
proof -
  from assms(2) have "nSequence (vin tx ! j) AND SEQUENCE_LOCKTIME_DISABLE_FLAG c = 0"
    by (simp add: null_at_def Let_def)
  from clear_disable_flag_enabled [OF assms(1) this, of i] assms(2) show ?thesis
    by (simp add: null_at_def)
qed

lemma set_map_filter_upt_mono:
  "(\<And>j v. j < m \<Longrightarrow> f j = Some v \<Longrightarrow> g j = Some v) \<Longrightarrow>
     set (List.map_filter f [0..<m]) \<subseteq> set (List.map_filter g [0..<m])"
  unfolding List.map_filter_def by force

lemma Max_insert_image_mono:
  fixes a :: int
  assumes "set xs \<subseteq> set ys"
  shows "Max (insert a (sint ` set xs)) \<le> Max (insert a (sint ` set ys))"
  by (rule Max_mono) (use assms in auto)


lemma CalculateSequenceLocks_returns:
  assumes "length prevHeights = length (vin tx)"
    and "\<forall>j < length (vin tx). GetAncestor ops block (smax (prevHeights ! j - 1) 0) \<noteq> None"
  shows "\<exists>r. CalculateSequenceLocks c ops tx flags prevHeights block = Inr r"
proof -
  have "\<forall>j. 0 \<le> j \<and> j < length (vin tx) \<longrightarrow> \<not> null_at c ops block tx prevHeights j"
    using assms(2) by (auto simp: null_at_def Let_def)
  from loop_succeeds [OF this] assms(1) show ?thesis
    by (simp add: CalculateSequenceLocks_def Let_def)
qed

text \<open>
  Claim C7.  Take a transaction of version at least 2, evaluated with the verify-sequence
  flag set, and any input coin heights.  Clearing the disable bit in the sequence number
  of one input never lowers a component of the pair that \<open>CalculateSequenceLocks\<close>
  computes: whenever the run on the transaction with the bit cleared returns
  \<open>(minHeight', minTime')\<close>, the run on the original transaction returns a pair
  \<open>(minHeight, minTime)\<close> with \<open>minHeight \<le> minHeight'\<close> and \<open>minTime \<le> minTime'\<close>
  as signed numbers.  Each result is the maximum of \<open>-1\<close> and the constraints of the
  inputs whose disable bit is clear; an input with the bit set contributes none.
\<close>

theorem CalculateSequenceLocks_disable_flag_monotone:
  assumes ver: "2 \<le> nVersion tx"
    and flag: "flags AND LOCKTIME_VERIFY_SEQUENCE c \<noteq> 0"
    and cleared: "CalculateSequenceLocks c ops (clear_disable_flag c tx i) flags prevHeights block
                    = Inr (hs', minHeight', minTime')"
  shows "\<exists>hs minHeight minTime.
           CalculateSequenceLocks c ops tx flags prevHeights block = Inr (hs, minHeight, minTime)
           \<and> minHeight \<le>s minHeight' \<and> minTime \<le>s minTime'
           \<and> sint minHeight = Max (insert (- 1) (sint ` set (height_locks c tx prevHeights)))
           \<and> sint minTime = Max (insert (- 1) (sint ` set (time_locks c ops block tx prevHeights)))
           \<and> sint minHeight'
               = Max (insert (- 1) (sint ` set (height_locks c (clear_disable_flag c tx i) prevHeights)))
           \<and> sint minTime'
               = Max (insert (- 1)
                   (sint ` set (time_locks c ops block (clear_disable_flag c tx i) prevHeights)))"
proof -
  let ?tx' = "clear_disable_flag c tx i"
  from cleared have len: "length prevHeights = length (vin tx)"
    by (auto simp: CalculateSequenceLocks_def split: if_splits)
  from cleared len ver flag
  have run': "CalculateSequenceLocks_loop c ops block ?tx' 0 (prevHeights, - 1, - 1)
                = Inr (hs', minHeight', minTime')"
    by (simp add: CalculateSequenceLocks_def clear_disable_flag_def)
  note r' = loop_result [OF run']
  have nonull: "\<forall>j. 0 \<le> j \<and> j < length (vin tx) \<longrightarrow> \<not> null_at c ops block tx prevHeights j"
    using r' null_at_clear [of _ tx c ops block prevHeights i] by auto
  from loop_succeeds [OF nonull] obtain hs minHeight minTime where
    run: "CalculateSequenceLocks_loop c ops block tx 0 (prevHeights, - 1, - 1)
            = Inr (hs, minHeight, minTime)"
    by (metis prod_cases3)
  note r = loop_result [OF run]
  have csl: "CalculateSequenceLocks c ops tx flags prevHeights block = Inr (hs, minHeight, minTime)"
    using run len ver flag by (simp add: CalculateSequenceLocks_def)
  have mh: "sint minHeight = Max (insert (- 1) (sint ` set (height_locks c tx prevHeights)))"
    using r by (simp add: sint_foldl_smax height_locks_def)
  have mt: "sint minTime = Max (insert (- 1) (sint ` set (time_locks c ops block tx prevHeights)))"
    using r by (simp add: sint_foldl_smax time_locks_def)
  have mh': "sint minHeight' = Max (insert (- 1) (sint ` set (height_locks c ?tx' prevHeights)))"
    using r' by (simp add: sint_foldl_smax height_locks_def)
  have mt': "sint minTime' = Max (insert (- 1) (sint ` set (time_locks c ops block ?tx' prevHeights)))"
    using r' by (simp add: sint_foldl_smax time_locks_def)
  have sub_h: "set (height_locks c tx prevHeights) \<subseteq> set (height_locks c ?tx' prevHeights)"
    unfolding height_locks_def clear_disable_flag_length
    by (rule set_map_filter_upt_mono) (rule height_lock_clear)
  have sub_t: "set (time_locks c ops block tx prevHeights)
                 \<subseteq> set (time_locks c ops block ?tx' prevHeights)"
    unfolding time_locks_def clear_disable_flag_length
    by (rule set_map_filter_upt_mono) (rule time_lock_clear)
  have "sint minHeight \<le> sint minHeight'"
    unfolding mh mh' by (rule Max_insert_image_mono [OF sub_h])
  moreover have "sint minTime \<le> sint minTime'"
    unfolding mt mt' by (rule Max_insert_image_mono [OF sub_t])
  ultimately show ?thesis
    using csl mh mt mh' mt' by (simp add: word_sle_eq)
qed


lemma example_cleared:
  "clear_disable_flag example_consts example_locked_tx 0
     = example_tx 2 0 [example_txin 5, example_txin 0x00400002]"
  by (simp add: clear_disable_flag_def example_locked_tx_def example_tx_def example_txin_def
      example_consts_def)

lemma example_run_cleared:
  "CalculateSequenceLocks example_consts example_ops
     (example_tx 2 0 [example_txin 5, example_txin 0x00400002]) 1 [1, 1] example_block2
   = Inr ([1, 1], 5, 2023)"
  by (simp add: CalculateSequenceLocks_def CalculateSequenceLocks_loop.simps example_tx_def
      example_txin_def example_consts_def example_ops_def example_block2_def example_block1_def
      example_genesis_def smax_def word_sless_alt)

theorem CalculateSequenceLocks_disable_flag_monotone_witness:
  "CalculateSequenceLocks example_consts example_ops
     (clear_disable_flag example_consts example_locked_tx 0) 1 [1, 1] example_block2
     = Inr ([1, 1], 5, 2023)
   \<and> (\<exists>hs minHeight minTime.
         CalculateSequenceLocks example_consts example_ops example_locked_tx 1 [1, 1] example_block2
           = Inr (hs, minHeight, minTime)
         \<and> minHeight \<le>s 5 \<and> minTime \<le>s 2023)"
proof -
  have ver: "2 \<le> nVersion example_locked_tx"
    by (simp add: example_locked_tx_def example_tx_def)
  have flag: "(1 :: int32) AND LOCKTIME_VERIFY_SEQUENCE example_consts \<noteq> 0"
    by (simp add: example_consts_def)
  have run: "CalculateSequenceLocks example_consts example_ops
     (clear_disable_flag example_consts example_locked_tx 0) 1 [1, 1] example_block2
     = Inr ([1, 1], 5, 2023)"
    by (simp only: example_cleared example_run_cleared)
  from CalculateSequenceLocks_disable_flag_monotone [OF ver flag run] run show ?thesis
    by blast
qed

section \<open>Properties of \<open>Consensus::CheckTxInputs\<close>\<close>

lemma DoS_result:
  "fst (DoS level ret code reason corruption state) = ret"
  "strRejectReason (snd (DoS level ret code reason corruption state)) = reason"
  "chRejectCode (snd (DoS level ret code reason corruption state)) = code"
  by (simp_all add: DoS_def Let_def)

lemma Invalid_result:
  "fst (Invalid ret code reason state) = ret"
  "strRejectReason (snd (Invalid ret code reason state)) = reason"
  "chRejectCode (snd (Invalid ret code reason state)) = code"
  by (simp_all add: Invalid_def DoS_result)

lemma CheckTxInputs_loop_append:
  "CheckTxInputs_loop c ops chain inputs tx state (pre @ rest) locals =
     (case CheckTxInputs_loop c ops chain inputs tx state pre locals of
        Inl f \<Rightarrow> Inl f
      | Inr (Return r) \<Rightarrow> Inr (Return r)
      | Inr (Next locals1) \<Rightarrow> CheckTxInputs_loop c ops chain inputs tx state rest locals1)"
  by (induction pre arbitrary: locals) (simp_all split: sum.splits flow.splits)


lemma CheckTxInputs_maturity_height:
  assumes "GetSpendHeight chain = Inr h" and "s = - 1 \<or> s = scast h"
    and "CheckTxInputs_maturity c ops chain tx coin s = Inr (p, s1)"
  shows "s1 = - 1 \<or> s1 = scast h"
  using assms
  by (auto simp: CheckTxInputs_maturity_def split: if_splits option.splits)

lemma CheckTxInputs_maturity_immature:
  assumes "GetSpendHeight chain = Inr h" and "s = - 1 \<or> s = scast h"
    and "fCoinBase coin \<or> IsCoinStake ops tx"
    and "scast h - ucast (Coin.nHeight coin) <s (scast (COINBASE_MATURITY c) :: int64)"
    and "Tip chain = Some tip"
  shows "CheckTxInputs_maturity c ops chain tx coin s
           = Inr (1600000 <s CBlockIndex.nHeight tip, scast h)"
  using assms by (auto simp: CheckTxInputs_maturity_def)

lemma CheckTxInputs_maturity_low_tip:
  assumes "Tip chain = Some tip" and "\<not> 1600000 <s CBlockIndex.nHeight tip"
    and "CheckTxInputs_maturity c ops chain tx coin s = Inr (p, s1)"
  shows "\<not> p"
  using assms
  by (auto simp: CheckTxInputs_maturity_def split: if_splits sum.splits)

lemma CheckTxInputs_maturity_total:
  assumes "GetSpendHeight chain = Inr h" and "Tip chain = Some tip"
  shows "\<exists>p s1. CheckTxInputs_maturity c ops chain tx coin s = Inr (p, s1)"
  using assms by (auto simp: CheckTxInputs_maturity_def)

lemma CheckTxInputs_input_height:
  assumes "GetSpendHeight chain = Inr h" and "snd locals = - 1 \<or> snd locals = scast h"
    and "CheckTxInputs_input c ops chain inputs tx state txin locals = Inr (Next locals1)"
  shows "snd locals1 = - 1 \<or> snd locals1 = scast h"
proof -
  from assms(3) obtain coin where coin: "inputs (prevout txin) = Some coin"
    by (auto simp: CheckTxInputs_input_def split: option.splits)
  from assms(3) coin obtain p s1 where
    m: "CheckTxInputs_maturity c ops chain tx coin (snd locals) = Inr (p, s1)"
    by (auto simp: CheckTxInputs_input_def split: sum.splits)
  from assms(3) coin m have "snd locals1 = s1"
    by (auto simp: CheckTxInputs_input_def Let_def split: if_splits)
  with CheckTxInputs_maturity_height [OF assms(1,2) m] show ?thesis
    by simp
qed

lemma CheckTxInputs_loop_height:
  assumes "GetSpendHeight chain = Inr h"
  shows "snd locals = - 1 \<or> snd locals = scast h \<Longrightarrow>
         CheckTxInputs_loop c ops chain inputs tx state ins locals = Inr (Next locals1) \<Longrightarrow>
         snd locals1 = - 1 \<or> snd locals1 = scast h"
proof (induction ins arbitrary: locals)
  case Nil
  then show ?case by simp
next
  case (Cons txin rest)
  from Cons.prems(2) obtain l where
    step: "CheckTxInputs_input c ops chain inputs tx state txin locals = Inr (Next l)"
    and rest: "CheckTxInputs_loop c ops chain inputs tx state rest l = Inr (Next locals1)"
    by (auto split: sum.splits flow.splits)
  from CheckTxInputs_input_height [OF assms Cons.prems(1) step] rest show ?case
    by (rule Cons.IH)
qed

lemma CheckTxInputs_input_immature:
  assumes "GetSpendHeight chain = Inr h" and "snd locals = - 1 \<or> snd locals = scast h"
    and "inputs (prevout txin) = Some coin"
    and "fCoinBase coin \<or> IsCoinStake ops tx"
    and "scast h - ucast (Coin.nHeight coin) <s (scast (COINBASE_MATURITY c) :: int64)"
    and "Tip chain = Some tip" and "1600000 <s CBlockIndex.nHeight tip"
  shows "CheckTxInputs_input c ops chain inputs tx state txin locals
           = Inr (Return (Invalid False REJECT_INVALID
                            ''bad-txns-premature-spend-of-coinbase'' state))"
  using CheckTxInputs_maturity_immature [OF assms(1,2,4,5,6)] assms(3,7)
  by (simp add: CheckTxInputs_input_def)

lemma CheckTxInputs_input_Return:
  assumes "CheckTxInputs_input c ops chain inputs tx state txin locals = Inr (Return r)"
  shows "fst r = False \<and> chRejectCode (snd r) = REJECT_INVALID
         \<and> strRejectReason (snd r) \<in> reject_reasons_of_input"
proof -
  from assms obtain coin where coin: "inputs (prevout txin) = Some coin"
    by (auto simp: CheckTxInputs_input_def split: option.splits)
  from assms coin obtain p s1 where
    m: "CheckTxInputs_maturity c ops chain tx coin (snd locals) = Inr (p, s1)"
    by (auto simp: CheckTxInputs_input_def split: sum.splits)
  from assms coin m
  have "r = Invalid False REJECT_INVALID ''bad-txns-premature-spend-of-coinbase'' state
        \<or> r = DoS 100 False REJECT_INVALID ''bad-txns-inputvalues-outofrange'' False state"
    by (auto simp: CheckTxInputs_input_def Let_def split: if_splits)
  then show ?thesis
    by (auto simp: DoS_result Invalid_result reject_reasons_of_input_def)
qed

lemma CheckTxInputs_input_low_tip:
  assumes "Tip chain = Some tip" and "\<not> 1600000 <s CBlockIndex.nHeight tip"
    and "CheckTxInputs_input c ops chain inputs tx state txin locals = Inr (Return r)"
  shows "r = DoS 100 False REJECT_INVALID ''bad-txns-inputvalues-outofrange'' False state"
proof -
  from assms(3) obtain coin where coin: "inputs (prevout txin) = Some coin"
    by (auto simp: CheckTxInputs_input_def split: option.splits)
  from assms(3) coin obtain p s1 where
    m: "CheckTxInputs_maturity c ops chain tx coin (snd locals) = Inr (p, s1)"
    by (auto simp: CheckTxInputs_input_def split: sum.splits)
  from CheckTxInputs_maturity_low_tip [OF assms(1,2) m] have "\<not> p" .
  with assms(3) coin m show ?thesis
    by (auto simp: CheckTxInputs_input_def Let_def split: if_splits)
qed

lemma CheckTxInputs_loop_low_tip:
  assumes "Tip chain = Some tip" and "\<not> 1600000 <s CBlockIndex.nHeight tip"
  shows "CheckTxInputs_loop c ops chain inputs tx state ins locals = Inr (Return r) \<Longrightarrow>
         r = DoS 100 False REJECT_INVALID ''bad-txns-inputvalues-outofrange'' False state"
proof (induction ins arbitrary: locals)
  case Nil
  then show ?case by simp
next
  case (Cons txin rest)
  show ?case
  proof (cases "CheckTxInputs_input c ops chain inputs tx state txin locals")
    case (Inl f)
    with Cons.prems show ?thesis by simp
  next
    case (Inr fl)
    show ?thesis
    proof (cases fl)
      case (Return r')
      with Inr Cons.prems have "r' = r" by simp
      with Inr Return CheckTxInputs_input_low_tip [OF assms] show ?thesis by blast
    next
      case (Next l)
      with Inr Cons.prems Cons.IH show ?thesis by simp
    qed
  qed
qed

lemma CheckTxInputs_balance_reason:
  assumes "CheckTxInputs_balance c ops chain tx state locals = (False, state1)"
  shows "strRejectReason state1 \<noteq> ''bad-txns-premature-spend-of-coinbase''"
proof -
  have "fst (CheckTxInputs_balance c ops chain tx state locals)
        \<or> strRejectReason (snd (CheckTxInputs_balance c ops chain tx state locals))
            \<noteq> ''bad-txns-premature-spend-of-coinbase''"
    by (simp add: CheckTxInputs_balance_def Let_def DoS_result split: option.splits)
  with assms show ?thesis
    by simp
qed


lemma CheckTxInputs_input_total:
  assumes "GetSpendHeight chain = Inr h" and "Tip chain = Some tip"
    and "inputs (prevout txin) \<noteq> None"
  shows "\<exists>fl. CheckTxInputs_input c ops chain inputs tx state txin locals = Inr fl"
proof -
  from assms(3) obtain coin where coin: "inputs (prevout txin) = Some coin"
    by auto
  from CheckTxInputs_maturity_total [OF assms(1,2)] obtain p s1 where
    "CheckTxInputs_maturity c ops chain tx coin (snd locals) = Inr (p, s1)"
    by blast
  with coin show ?thesis
    by (simp add: CheckTxInputs_input_def Let_def)
qed

lemma CheckTxInputs_loop_Return:
  "CheckTxInputs_loop c ops chain inputs tx state ins locals = Inr (Return r) \<Longrightarrow>
     fst r = False \<and> chRejectCode (snd r) = REJECT_INVALID
     \<and> strRejectReason (snd r) \<in> reject_reasons_of_input"
proof (induction ins arbitrary: locals)
  case Nil
  then show ?case by simp
next
  case (Cons txin rest)
  show ?case
  proof (cases "CheckTxInputs_input c ops chain inputs tx state txin locals")
    case (Inl f)
    with Cons.prems show ?thesis by simp
  next
    case (Inr fl)
    show ?thesis
    proof (cases fl)
      case (Return r')
      with Inr Cons.prems have "r' = r" by simp
      with Inr Return show ?thesis by (simp add: CheckTxInputs_input_Return)
    next
      case (Next l)
      with Inr Cons.prems Cons.IH show ?thesis by simp
    qed
  qed
qed

lemma CheckTxInputs_loop_rejects:
  assumes spend: "GetSpendHeight chain = Inr h" and tip: "Tip chain = Some tip"
    and high: "1600000 <s CBlockIndex.nHeight tip"
  shows "\<forall>txin \<in> set ins. inputs (prevout txin) \<noteq> None \<Longrightarrow>
         \<exists>txin \<in> set ins. \<exists>coin. inputs (prevout txin) = Some coin
            \<and> (fCoinBase coin \<or> IsCoinStake ops tx) \<and> premature_spend c h coin \<Longrightarrow>
         snd locals = - 1 \<or> snd locals = scast h \<Longrightarrow>
         \<exists>r. CheckTxInputs_loop c ops chain inputs tx state ins locals = Inr (Return r)"
proof (induction ins arbitrary: locals)
  case Nil
  then show ?case by simp
next
  case (Cons txin rest)
  from Cons.prems(1) have here: "inputs (prevout txin) \<noteq> None" by simp
  from CheckTxInputs_input_total [where inputs = inputs and txin = txin, OF spend tip here]
  obtain fl where
    step: "CheckTxInputs_input c ops chain inputs tx state txin locals = Inr fl"
    by blast
  show ?case
  proof (cases fl)
    case (Return r)
    with step show ?thesis by simp
  next
    case (Next l)
    have notme: "\<not> (\<exists>coin. inputs (prevout txin) = Some coin
                   \<and> (fCoinBase coin \<or> IsCoinStake ops tx) \<and> premature_spend c h coin)"
    proof
      assume "\<exists>coin. inputs (prevout txin) = Some coin
                \<and> (fCoinBase coin \<or> IsCoinStake ops tx) \<and> premature_spend c h coin"
      then obtain coin where "inputs (prevout txin) = Some coin"
        "fCoinBase coin \<or> IsCoinStake ops tx" "premature_spend c h coin"
        by blast
      from CheckTxInputs_input_immature
             [where inputs = inputs and txin = txin,
              OF spend Cons.prems(3) this(1,2) this(3) [unfolded premature_spend_def] tip high]
        step Next
      show False by simp
    qed
    with Cons.prems(2) have later: "\<exists>txin \<in> set rest. \<exists>coin. inputs (prevout txin) = Some coin
            \<and> (fCoinBase coin \<or> IsCoinStake ops tx) \<and> premature_spend c h coin"
      by auto
    from Cons.prems(1) have avail: "\<forall>txin \<in> set rest. inputs (prevout txin) \<noteq> None"
      by simp
    from step Next have step': "CheckTxInputs_input c ops chain inputs tx state txin locals = Inr (Next l)"
      by simp
    note inv = CheckTxInputs_input_height [OF spend Cons.prems(3) step']
    from Cons.IH [OF avail later inv] step' show ?thesis
      by simp
  qed
qed

lemma HaveInputs_available:
  "\<forall>txin \<in> set (vin tx). inputs (prevout txin) \<noteq> None \<Longrightarrow> HaveInputs ops inputs tx"
  by (simp add: HaveInputs_def list_all_iff)

text \<open>
  Claim C4.  In \<open>Consensus::CheckTxInputs\<close>, spending a coin flagged as created by a
  coinbase/coinstake transaction at a depth below \<open>COINBASE_MATURITY\<close> is rejected with
  reason \<open>bad-txns-premature-spend-of-coinbase\<close> once the active tip is above height
  1600000: when the inputs before it pass, the call returns exactly that rejection, and
  in any case the transaction is rejected.  While the tip is at or below that height no
  call is rejected with that reason.  (The code applies the same test to every input of
  a coinstake transaction.)
\<close>

theorem CheckTxInputs_maturity_rule:
  assumes spend: "GetSpendHeight chain = Inr h" and tip: "Tip chain = Some tip"
  shows
    "(1600000 <s CBlockIndex.nHeight tip \<longrightarrow>
        (\<forall>pre txin post coin locals.
            vin tx = pre @ txin # post \<and> HaveInputs ops inputs tx
            \<and> CheckTxInputs_loop c ops chain inputs tx state pre (0, - 1) = Inr (Next locals)
            \<and> inputs (prevout txin) = Some coin
            \<and> (fCoinBase coin \<or> IsCoinStake ops tx) \<and> premature_spend c h coin
            \<longrightarrow> CheckTxInputs c ops chain tx state inputs nSpendHeight_arg
                  = Inr (Invalid False REJECT_INVALID
                           ''bad-txns-premature-spend-of-coinbase'' state))
        \<and> ((\<forall>txin \<in> set (vin tx). inputs (prevout txin) \<noteq> None)
             \<and> (\<exists>txin \<in> set (vin tx). \<exists>coin. inputs (prevout txin) = Some coin
                    \<and> (fCoinBase coin \<or> IsCoinStake ops tx) \<and> premature_spend c h coin)
             \<longrightarrow> (\<exists>state1. CheckTxInputs c ops chain tx state inputs nSpendHeight_arg
                              = Inr (False, state1)
                          \<and> chRejectCode state1 = REJECT_INVALID
                          \<and> strRejectReason state1 \<in> reject_reasons_of_input)))
     \<and> (\<not> 1600000 <s CBlockIndex.nHeight tip \<longrightarrow>
          (\<forall>state1. CheckTxInputs c ops chain tx state inputs nSpendHeight_arg = Inr (False, state1)
              \<longrightarrow> strRejectReason state1 \<noteq> ''bad-txns-premature-spend-of-coinbase''))"
proof (intro conjI impI allI)
  fix pre txin post coin locals
  assume high: "1600000 <s CBlockIndex.nHeight tip"
    and h: "vin tx = pre @ txin # post \<and> HaveInputs ops inputs tx
            \<and> CheckTxInputs_loop c ops chain inputs tx state pre (0, - 1) = Inr (Next locals)
            \<and> inputs (prevout txin) = Some coin
            \<and> (fCoinBase coin \<or> IsCoinStake ops tx) \<and> premature_spend c h coin"
  have start: "snd (0 :: int64, - 1 :: int64) = - 1 \<or> snd (0 :: int64, - 1 :: int64) = scast h"
    by simp
  from h have pre: "CheckTxInputs_loop c ops chain inputs tx state pre (0, - 1) = Inr (Next locals)"
    by simp
  note inv = CheckTxInputs_loop_height [OF spend start pre]
  from h have "inputs (prevout txin) = Some coin" "fCoinBase coin \<or> IsCoinStake ops tx"
    "scast h - ucast (Coin.nHeight coin) <s (scast (COINBASE_MATURITY c) :: int64)"
    by (simp_all add: premature_spend_def)
  note step = CheckTxInputs_input_immature
                [where inputs = inputs and txin = txin and state = state, OF spend inv this tip high]
  have "CheckTxInputs_loop c ops chain inputs tx state (vin tx) (0, - 1)
          = Inr (Return (Invalid False REJECT_INVALID
                           ''bad-txns-premature-spend-of-coinbase'' state))"
    using h pre step by (simp add: CheckTxInputs_loop_append)
  with h show "CheckTxInputs c ops chain tx state inputs nSpendHeight_arg
                 = Inr (Invalid False REJECT_INVALID
                          ''bad-txns-premature-spend-of-coinbase'' state)"
    by (simp add: CheckTxInputs_def)
next
  assume high: "1600000 <s CBlockIndex.nHeight tip"
    and h: "(\<forall>txin \<in> set (vin tx). inputs (prevout txin) \<noteq> None)
             \<and> (\<exists>txin \<in> set (vin tx). \<exists>coin. inputs (prevout txin) = Some coin
                    \<and> (fCoinBase coin \<or> IsCoinStake ops tx) \<and> premature_spend c h coin)"
  from h have avail: "\<forall>txin \<in> set (vin tx). inputs (prevout txin) \<noteq> None"
    and ex: "\<exists>txin \<in> set (vin tx). \<exists>coin. inputs (prevout txin) = Some coin
                    \<and> (fCoinBase coin \<or> IsCoinStake ops tx) \<and> premature_spend c h coin"
    by blast+
  have start: "snd (0 :: int64, - 1 :: int64) = - 1 \<or> snd (0 :: int64, - 1 :: int64) = scast h"
    by simp
  from CheckTxInputs_loop_rejects [OF spend tip high avail ex start, of state] obtain r where
    r: "CheckTxInputs_loop c ops chain inputs tx state (vin tx) (0, - 1) = Inr (Return r)"
    by blast
  from CheckTxInputs_loop_Return [OF r] have "fst r = False" "chRejectCode (snd r) = REJECT_INVALID"
    "strRejectReason (snd r) \<in> reject_reasons_of_input"
    by simp_all
  moreover have "CheckTxInputs c ops chain tx state inputs nSpendHeight_arg = Inr r"
    using r HaveInputs_available [OF avail] by (simp add: CheckTxInputs_def)
  ultimately show "\<exists>state1. CheckTxInputs c ops chain tx state inputs nSpendHeight_arg
                              = Inr (False, state1)
                          \<and> chRejectCode state1 = REJECT_INVALID
                          \<and> strRejectReason state1 \<in> reject_reasons_of_input"
    by (metis prod.collapse)
next
  fix state1
  assume low: "\<not> 1600000 <s CBlockIndex.nHeight tip"
    and res: "CheckTxInputs c ops chain tx state inputs nSpendHeight_arg = Inr (False, state1)"
  show "strRejectReason state1 \<noteq> ''bad-txns-premature-spend-of-coinbase''"
  proof (cases "HaveInputs ops inputs tx")
    case False
    with res have "Invalid False REJECT_NONE [] state = (False, state1)"
      by (simp add: CheckTxInputs_def)
    then have "state1 = snd (Invalid False REJECT_NONE [] state)"
      by simp
    then show ?thesis by (simp add: Invalid_result)
  next
    case True
    show ?thesis
    proof (cases "CheckTxInputs_loop c ops chain inputs tx state (vin tx) (0, - 1)")
      case (Inl f)
      with res True show ?thesis by (simp add: CheckTxInputs_def)
    next
      case (Inr fl)
      show ?thesis
      proof (cases fl)
        case (Return r)
        from CheckTxInputs_loop_low_tip [OF tip low Inr [unfolded Return]]
        have "r = DoS 100 False REJECT_INVALID ''bad-txns-inputvalues-outofrange'' False state" .
        moreover from res True Inr Return have "r = (False, state1)"
          by (simp add: CheckTxInputs_def)
        ultimately have "state1 = snd (DoS 100 False REJECT_INVALID
                                        ''bad-txns-inputvalues-outofrange'' False state)"
          by (metis snd_conv)
        then show ?thesis by (simp add: DoS_result)
      next
        case (Next locals)
        with res True Inr have "CheckTxInputs_balance c ops chain tx state locals = (False, state1)"
          by (simp add: CheckTxInputs_def)
        then show ?thesis by (rule CheckTxInputs_balance_reason)
      qed
    qed
  qed
qed


lemma example_low_accept:
  "CheckTxInputs example_consts example_tx_ops (example_chain_state 1500000) (example_spend 40)
         example_state (example_view (example_coin 50 True 1499990)) 0 = Inr (True, example_state)"
  by (simp add: CheckTxInputs_def HaveInputs_def CheckTxInputs_input_def CheckTxInputs_maturity_def
      CheckTxInputs_balance_def GetSpendHeight_def MoneyRange_def example_consts_def
      example_tx_ops_def example_chain_state_def example_coin_def example_view_def
      example_spend_def example_txin_def word_sless_alt word_sle_eq)

lemma example_low_reject:
  "CheckTxInputs example_consts example_tx_ops (example_chain_state 1500000) (example_spend 60)
         example_state (example_view (example_coin 50 True 1499990)) 0
     = Inr (False, example_state \<lparr> mode := MODE_INVALID, nDoS := 100,
                     strRejectReason := ''bad-txns-in-belowout'', chRejectCode := REJECT_INVALID \<rparr>)"
  by (simp add: CheckTxInputs_def HaveInputs_def CheckTxInputs_input_def CheckTxInputs_maturity_def
      CheckTxInputs_balance_def GetSpendHeight_def MoneyRange_def example_consts_def
      example_tx_ops_def example_chain_state_def example_coin_def example_view_def
      example_spend_def example_txin_def word_sless_alt word_sle_eq DoS_def example_state_def)


theorem CheckTxInputs_maturity_rule_witness:
  "CheckTxInputs example_consts example_tx_ops (example_chain_state 1700000) (example_spend 40)
     example_state (example_view (example_coin 50 True 1699990)) 0
     = Inr (Invalid False REJECT_INVALID ''bad-txns-premature-spend-of-coinbase'' example_state)
   \<and> CheckTxInputs example_consts example_tx_ops (example_chain_state 1500000) (example_spend 40)
       example_state (example_view (example_coin 50 True 1499990)) 0 = Inr (True, example_state)
   \<and> (\<exists>state1.
         CheckTxInputs example_consts example_tx_ops (example_chain_state 1500000) (example_spend 60)
           example_state (example_view (example_coin 50 True 1499990)) 0 = Inr (False, state1)
         \<and> strRejectReason state1 \<noteq> ''bad-txns-premature-spend-of-coinbase'')"
proof -
  let ?high = "example_chain_state 1700000" and ?low = "example_chain_state 1500000"
  let ?coin = "example_coin 50 True 1699990"
  let ?tx = "example_spend 40"
  have spend: "GetSpendHeight ?high = Inr 1700001"
    by (simp add: GetSpendHeight_def example_chain_state_def)
  have tip: "Tip ?high = Some (CBlockIndex 1700000 5000 None)"
    by (simp add: example_chain_state_def)
  have high: "1600000 <s CBlockIndex.nHeight (CBlockIndex 1700000 5000 None)"
    by (simp add: word_sless_alt)
  have hyp: "vin ?tx = [] @ example_txin 0xffffffff # []
      \<and> HaveInputs example_tx_ops (example_view ?coin) ?tx
      \<and> CheckTxInputs_loop example_consts example_tx_ops ?high (example_view ?coin) ?tx
            example_state [] (0, - 1) = Inr (Next (0, - 1))
      \<and> example_view ?coin (prevout (example_txin 0xffffffff)) = Some ?coin
      \<and> (fCoinBase ?coin \<or> IsCoinStake example_tx_ops ?tx)
      \<and> premature_spend example_consts 1700001 ?coin"
    by (simp add: example_spend_def HaveInputs_def example_tx_ops_def example_view_def
        example_txin_def example_coin_def premature_spend_def example_consts_def word_sless_alt)
  from CheckTxInputs_maturity_rule [where ops = example_tx_ops and inputs = "example_view ?coin"
      and tx = ?tx and c = example_consts and state = example_state and nSpendHeight_arg = 0,
      OF spend tip] high hyp
  have first: "CheckTxInputs example_consts example_tx_ops ?high ?tx example_state
                 (example_view ?coin) 0
               = Inr (Invalid False REJECT_INVALID ''bad-txns-premature-spend-of-coinbase''
                        example_state)"
    by blast
  have spend': "GetSpendHeight ?low = Inr 1500001"
    by (simp add: GetSpendHeight_def example_chain_state_def)
  have tip': "Tip ?low = Some (CBlockIndex 1500000 5000 None)"
    by (simp add: example_chain_state_def)
  have low: "\<not> 1600000 <s CBlockIndex.nHeight (CBlockIndex 1500000 5000 None)"
    by (simp add: word_sless_alt)
  from CheckTxInputs_maturity_rule [where ops = example_tx_ops
      and inputs = "example_view (example_coin 50 True 1499990)" and tx = "example_spend 60"
      and c = example_consts and state = example_state and nSpendHeight_arg = 0,
      OF spend' tip'] low example_low_reject
  have third: "strRejectReason (example_state \<lparr> mode := MODE_INVALID, nDoS := 100,
                     strRejectReason := ''bad-txns-in-belowout'', chRejectCode := REJECT_INVALID \<rparr>)
                 \<noteq> ''bad-txns-premature-spend-of-coinbase''"
    by blast
  from first example_low_accept example_low_reject third show ?thesis
    by blast
qed

section \<open>Properties of \<open>FlushStateToDisk\<close>\<close>

lemma CheckDiskSpace_cases:
  "disk_space_ok c env a \<Longrightarrow> CheckDiskSpace c (fs_space env) a = Returns (True, [])"
  "\<not> disk_space_ok c env a \<Longrightarrow>
     (\<exists>e. CheckDiskSpace c (fs_space env) a = Throws e)
     \<or> CheckDiskSpace c (fs_space env) a = Returns (AbortNode ''Disk space is low!'')"
  by (auto simp: disk_space_ok_def CheckDiskSpace_def split: outcome.splits)

lemma AbortNode_simps [simp]:
  "fst (AbortNode m) = False" "snd (AbortNode m) = [Log m, StartShutdown m]"
  "AbortNode m = (False, [Log m, StartShutdown m])"
  by (simp_all add: AbortNode_def)




lemma coins_phase_ok:
  assumes "disk_space_ok c env (128 * 2 * 2 * GetCacheSize env)"
    and "Flush_result env = Returns True"
  shows "FlushStateToDisk_coins c env state nNow g
           = (Proceed, g\<lparr> nLastFlush := nNow \<rparr>, [CoinsFlush])"
  using assms by (simp add: FlushStateToDisk_coins_def CheckDiskSpace_cases(1))








lemma AbortNode_state_trace:
  "snd (AbortNode_state state m) = [Log m, StartShutdown m]"
  "fst (fst (AbortNode_state state m)) = False"
  "mode (snd (fst (AbortNode_state state m))) = MODE_ERROR"
  by (simp_all add: AbortNode_state_def Error_def)











section \<open>Properties of \<open>CheckBlock\<close>\<close>

lemma CheckBlock_more_coinbase_iff:
  "CheckBlock_more_coinbase ops txs i
     \<longleftrightarrow> (\<exists>j. i \<le> j \<and> j < length txs \<and> IsCoinBase ops (txs ! j))"
proof (induction ops txs i rule: CheckBlock_more_coinbase.induct)
  case (1 ops txs i)
  show ?case
  proof (cases "i < length txs")
    case False
    then show ?thesis
      by (simp add: CheckBlock_more_coinbase.simps [of ops txs i])
  next
    case True
    show ?thesis
    proof (cases "IsCoinBase ops (txs ! i)")
      case cb: True
      with True show ?thesis
        by (auto simp: CheckBlock_more_coinbase.simps [of ops txs i])
    next
      case cb: False
      have "(\<exists>j. i \<le> j \<and> j < length txs \<and> IsCoinBase ops (txs ! j))
              \<longleftrightarrow> (\<exists>j. Suc i \<le> j \<and> j < length txs \<and> IsCoinBase ops (txs ! j))"
        using cb by (metis Suc_leD Suc_leI le_neq_implies_less)
      with "1.IH" [OF True cb] True cb show ?thesis
        by (simp add: CheckBlock_more_coinbase.simps [of ops txs i])
    qed
  qed
qed

lemma CheckBlock_late_coinstake_iff:
  "CheckBlock_late_coinstake ops txs i
     \<longleftrightarrow> (\<exists>j. i \<le> j \<and> j < length txs \<and> IsCoinStake ops (txs ! j))"
proof (induction ops txs i rule: CheckBlock_late_coinstake.induct)
  case (1 ops txs i)
  show ?case
  proof (cases "i < length txs")
    case False
    then show ?thesis
      by (simp add: CheckBlock_late_coinstake.simps [of ops txs i])
  next
    case True
    show ?thesis
    proof (cases "IsCoinStake ops (txs ! i)")
      case cs: True
      with True show ?thesis
        by (auto simp: CheckBlock_late_coinstake.simps [of ops txs i])
    next
      case cs: False
      have "(\<exists>j. i \<le> j \<and> j < length txs \<and> IsCoinStake ops (txs ! j))
              \<longleftrightarrow> (\<exists>j. Suc i \<le> j \<and> j < length txs \<and> IsCoinStake ops (txs ! j))"
        using cs by (metis Suc_leD Suc_leI le_neq_implies_less)
      with "1.IH" [OF True cs] True cs show ?thesis
        by (simp add: CheckBlock_late_coinstake.simps [of ops txs i])
    qed
  qed
qed

lemma CheckBlock_integrity_Some:
  "CheckBlock_integrity c bops block state pow mr = Some (r, tr) \<Longrightarrow> fst r = False"
  by (auto simp: CheckBlock_integrity_def DoS_result Let_def
      split: if_splits option.splits prod.splits)

lemma CheckBlock_integrity_state:
  "CheckBlock_integrity c bops block state pow mr = None
     \<longleftrightarrow> CheckBlock_integrity c bops block state' pow mr = None"
  by (auto simp: CheckBlock_integrity_def Let_def split: option.splits prod.splits)

lemma CheckBlock_integrity_None_nonempty:
  "CheckBlock_integrity c bops block state pow mr = None \<Longrightarrow> vtx block \<noteq> []"
  by (auto simp: CheckBlock_integrity_def Let_def split: if_splits option.splits prod.splits)

lemma CheckBlock_shape_Some:
  "CheckBlock_shape ops bops block state = Some (r, tr) \<Longrightarrow> fst r = False"
  by (auto simp: CheckBlock_shape_def DoS_result split: if_splits)

lemma CheckBlock_shape_state:
  "CheckBlock_shape ops bops block state = None \<longleftrightarrow> CheckBlock_shape ops bops block state' = None"
  by (auto simp: CheckBlock_shape_def)

lemma CheckBlock_shape_None:
  "CheckBlock_shape ops bops block state = None \<Longrightarrow>
     vtx block \<noteq> [] \<and> IsCoinBase ops (vtx block ! 0)
     \<and> (\<forall>i. 1 \<le> i \<and> i < length (vtx block) \<longrightarrow> \<not> IsCoinBase ops (vtx block ! i))
     \<and> (\<forall>i. 2 \<le> i \<and> i < length (vtx block) \<longrightarrow> \<not> IsCoinStake ops (vtx block ! i))"
  by (auto simp: CheckBlock_shape_def CheckBlock_more_coinbase_iff CheckBlock_late_coinstake_iff
      split: if_splits)

lemma CheckBlock_budget_Some:
  "CheckBlock_budget c ops bops block state = Some (r, tr) \<Longrightarrow> fst r = False"
  by (auto simp: CheckBlock_budget_def DoS_result Let_def split: if_splits)

lemma CheckBlock_budget_state:
  "CheckBlock_budget c ops bops block state = None
     \<longleftrightarrow> CheckBlock_budget c ops bops block state' = None"
  by (auto simp: CheckBlock_budget_def Let_def)

lemma CheckBlock_tx_Return:
  "CheckBlock_tx ops bops sops block tx locals = Return (r, tr) \<Longrightarrow> fst r = False"
  by (auto simp: CheckBlock_tx_def Let_def DoS_result Invalid_result
      split: option.splits prod.splits if_splits)

lemma CheckBlock_tx_Next_iff:
  "(\<exists>l. CheckBlock_tx ops bops sops block tx locals = Next l)
     \<longleftrightarrow> CheckTransaction ops tx = None \<and> \<not> later_than_block bops block tx"
  by (auto simp: CheckBlock_tx_def Let_def later_than_block_def
      split: option.splits prod.splits if_splits)

lemma CheckBlock_txs_Return:
  "CheckBlock_txs ops bops sops block txs locals = Return (r, tr) \<Longrightarrow> fst r = False"
proof (induction txs arbitrary: locals)
  case Nil
  then show ?case by simp
next
  case (Cons tx rest)
  show ?case
  proof (cases "CheckBlock_tx ops bops sops block tx locals")
    case (Return r')
    with Cons.prems have "CheckBlock_tx ops bops sops block tx locals = Return (r, tr)"
      by simp
    then show ?thesis by (rule CheckBlock_tx_Return)
  next
    case (Next l)
    with Cons.prems Cons.IH show ?thesis by simp
  qed
qed

lemma CheckBlock_txs_Next_iff:
  "(\<exists>l. CheckBlock_txs ops bops sops block txs locals = Next l)
     \<longleftrightarrow> (\<forall>tx \<in> set txs. CheckTransaction ops tx = None \<and> \<not> later_than_block bops block tx)"
proof (induction txs arbitrary: locals)
  case Nil
  show ?case by simp
next
  case (Cons tx rest)
  show ?case
  proof (cases "CheckBlock_tx ops bops sops block tx locals")
    case (Return r')
    with CheckBlock_tx_Next_iff [of ops bops sops block tx locals] show ?thesis
      by auto
  next
    case (Next l)
    with CheckBlock_tx_Next_iff [of ops bops sops block tx locals] Cons.IH [of l] show ?thesis
      by auto
  qed
qed

text \<open>When \<open>CheckBlock\<close> returns true, whatever the service side channel and the incoming state are.\<close>

lemma CheckBlock_verdict_iff:
  "fst (fst (CheckBlock c ops bops sops block state pow mr))
     \<longleftrightarrow> fChecked block
         \<or> (CheckBlock_integrity c bops block s0 pow mr = None
            \<and> CheckBlock_shape ops bops block s0 = None
            \<and> (\<forall>tx \<in> set (vtx block).
                   CheckTransaction ops tx = None \<and> \<not> later_than_block bops block tx)
            \<and> CheckBlock_budget c ops bops block s0 = None)"
proof (cases "fChecked block")
  case True
  then show ?thesis by (simp add: CheckBlock_def)
next
  case nc: False
  show ?thesis
  proof (cases "CheckBlock_integrity c bops block state pow mr")
    case (Some a)
    obtain r tr where a: "a = (r, tr)" by (cases a)
    from Some a CheckBlock_integrity_Some have "fst r = False" by blast
    moreover from Some CheckBlock_integrity_state [of c bops block state pow mr s0]
    have "CheckBlock_integrity c bops block s0 pow mr \<noteq> None" by simp
    ultimately show ?thesis
      using nc Some a by (simp add: CheckBlock_def)
  next
    case i: None
    with CheckBlock_integrity_state [of c bops block state pow mr s0]
    have i0: "CheckBlock_integrity c bops block s0 pow mr = None" by simp
    show ?thesis
    proof (cases "CheckBlock_shape ops bops block state")
      case (Some a)
      obtain r tr where a: "a = (r, tr)" by (cases a)
      from Some a CheckBlock_shape_Some have "fst r = False" by blast
      moreover from Some CheckBlock_shape_state [of ops bops block state s0]
      have "CheckBlock_shape ops bops block s0 \<noteq> None" by simp
      ultimately show ?thesis
        using nc i Some a by (simp add: CheckBlock_def)
    next
      case sh: None
      with CheckBlock_shape_state [of ops bops block state s0]
      have sh0: "CheckBlock_shape ops bops block s0 = None" by simp
      show ?thesis
      proof (cases "CheckBlock_txs ops bops sops block (vtx block) (state, [])")
        case (Return a)
        obtain r tr where a: "a = (r, tr)" by (cases a)
        from Return a CheckBlock_txs_Return have "fst r = False" by blast
        moreover from Return CheckBlock_txs_Next_iff [of ops bops sops block "vtx block" "(state, [])"]
        have "\<not> (\<forall>tx \<in> set (vtx block).
                   CheckTransaction ops tx = None \<and> \<not> later_than_block bops block tx)"
          by simp
        ultimately show ?thesis
          using nc i sh Return a by (simp add: CheckBlock_def)
      next
        case (Next l)
        obtain state1 tr1 where l: "l = (state1, tr1)" by (cases l)
        from Next CheckBlock_txs_Next_iff [of ops bops sops block "vtx block" "(state, [])"]
        have all: "\<forall>tx \<in> set (vtx block).
                   CheckTransaction ops tx = None \<and> \<not> later_than_block bops block tx"
          by blast
        show ?thesis
        proof (cases "CheckBlock_budget c ops bops block state1")
          case (Some a)
          obtain r tr where a: "a = (r, tr)" by (cases a)
          from Some a CheckBlock_budget_Some have "fst r = False" by blast
          moreover from Some CheckBlock_budget_state [of c ops bops block state1 s0]
          have "CheckBlock_budget c ops bops block s0 \<noteq> None" by simp
          ultimately show ?thesis
            using nc i sh Next l Some a by (simp add: CheckBlock_def)
        next
          case b: None
          with CheckBlock_budget_state [of c ops bops block state1 s0]
          have "CheckBlock_budget c ops bops block s0 = None" by simp
          with nc i i0 sh sh0 Next l b all show ?thesis
            by (simp add: CheckBlock_def)
        qed
      qed
    qed
  qed
qed


lemma CheckBlock_service_absent:
  "lookup sops (serviceReferenceHash tx) = None \<Longrightarrow>
     CheckBlock_service sops tx state
       = (state, [Log ''tx pays for service transaction but none can be found'',
                  Log ''Requesting stx'', AskFor (serviceReferenceHash tx)])"
  by (simp add: CheckBlock_service_def)

lemma CheckBlock_service_failed:
  "lookup sops (serviceReferenceHash tx) = Some stx \<Longrightarrow>
   CheckServiceTransaction sops stx tx state = (False, state1) \<Longrightarrow>
     CheckBlock_service sops tx state
       = (state1, [Log ''CheckBlock(): CheckServiceTransaction failed. This is a non fatal error''])"
  by (simp add: CheckBlock_service_def)

lemma CheckBlock_tx_trace:
  assumes "CheckBlock_tx ops bops sops block tx (state, tr) = Next (state1, tr1)"
  shows "set tr \<subseteq> set tr1"
    and "nVersion tx = 2 \<Longrightarrow> lookup sops (serviceReferenceHash tx) = None \<Longrightarrow>
           AskFor (serviceReferenceHash tx) \<in> set tr1"
  using assms
  by (auto simp: CheckBlock_tx_def Let_def CheckBlock_service_absent
      split: option.splits prod.splits if_splits)

lemma CheckBlock_txs_trace:
  "CheckBlock_txs ops bops sops block txs (state, tr) = Next (state1, tr1) \<Longrightarrow>
     set tr \<subseteq> set tr1
     \<and> (\<forall>tx \<in> set txs. nVersion tx = 2 \<and> lookup sops (serviceReferenceHash tx) = None
            \<longrightarrow> AskFor (serviceReferenceHash tx) \<in> set tr1)"
proof (induction txs arbitrary: state tr)
  case Nil
  then show ?case by simp
next
  case (Cons tx rest)
  from Cons.prems obtain state2 tr2 where
    step: "CheckBlock_tx ops bops sops block tx (state, tr) = Next (state2, tr2)"
    and rest: "CheckBlock_txs ops bops sops block rest (state2, tr2) = Next (state1, tr1)"
    by (cases "CheckBlock_tx ops bops sops block tx (state, tr)") auto
  from Cons.IH [OF rest] CheckBlock_tx_trace [OF step] show ?case
    by auto
qed

lemma CheckBlock_accept_trace:
  assumes "\<not> fChecked block" and "fst (fst (CheckBlock c ops bops sops block state pow mr))"
    and "tx \<in> set (vtx block)" and "nVersion tx = 2"
    and "lookup sops (serviceReferenceHash tx) = None"
  shows "AskFor (serviceReferenceHash tx)
           \<in> set (snd (snd (CheckBlock c ops bops sops block state pow mr)))"
proof -
  from assms(1,2) CheckBlock_verdict_iff [of c ops bops sops block state pow mr state]
  have i: "CheckBlock_integrity c bops block state pow mr = None"
    and sh: "CheckBlock_shape ops bops block state = None"
    and all: "\<forall>tx \<in> set (vtx block).
                   CheckTransaction ops tx = None \<and> \<not> later_than_block bops block tx"
    by simp_all
  from all CheckBlock_txs_Next_iff [of ops bops sops block "vtx block" "(state, [])"]
  obtain state1 tr1 where
    run: "CheckBlock_txs ops bops sops block (vtx block) (state, []) = Next (state1, tr1)"
    by (metis prod.collapse)
  from CheckBlock_txs_trace [OF run] assms(3,4,5)
  have ask: "AskFor (serviceReferenceHash tx) \<in> set tr1"
    by blast
  from assms(1,2) CheckBlock_verdict_iff [of c ops bops sops block state pow mr state1]
  have b: "CheckBlock_budget c ops bops block state1 = None"
    by simp
  from assms(1) i sh run b ask show ?thesis
    by (simp add: CheckBlock_def)
qed

lemmas example_block_defs =
  example_block_ops_def example_coinbase_def example_payment_def example_cblock_def
  example_service_absent_def example_service_failing_def example_tx_ops_def example_txin_def
  example_consts_def

lemmas CheckBlock_unfold =
  CheckBlock_def CheckBlock_integrity_def CheckBlock_shape_def CheckBlock_tx_def
  CheckBlock_service_def CheckBlock_budget_def GetLegacySigOpCount_def
  CheckBlock_more_coinbase.simps CheckBlock_late_coinstake.simps

lemma example_block_accepted:
  "fst (fst (CheckBlock example_consts example_tx_ops example_block_ops example_service_absent
         (example_cblock [example_coinbase, example_payment 2 4000] False) example_state True True))"
  by (simp add: CheckBlock_unfold example_block_defs word_sless_alt)


text \<open>The only write of the flag: after a run that returns true with both checks requested.\<close>

lemma CheckBlock_flag_written:
  "fst (snd (CheckBlock c ops bops sops block state fCheckPOW fCheckMerkleRoot))
     \<longleftrightarrow> fChecked block
         \<or> (fst (fst (CheckBlock c ops bops sops block state fCheckPOW fCheckMerkleRoot))
            \<and> fCheckPOW \<and> fCheckMerkleRoot)"
proof (cases "fChecked block")
  case True
  then show ?thesis by (simp add: CheckBlock_def)
next
  case nc: False
  show ?thesis
  proof (cases "CheckBlock_integrity c bops block state fCheckPOW fCheckMerkleRoot")
    case (Some rt)
    obtain r tr where rt: "rt = (r, tr)" by (cases rt)
    with Some have "\<not> fst r" using CheckBlock_integrity_Some by blast
    with nc Some rt show ?thesis by (simp add: CheckBlock_def)
  next
    case i: None
    show ?thesis
    proof (cases "CheckBlock_shape ops bops block state")
      case (Some rt)
      obtain r tr where rt: "rt = (r, tr)" by (cases rt)
      with Some have "\<not> fst r" using CheckBlock_shape_Some by blast
      with nc i Some rt show ?thesis by (simp add: CheckBlock_def)
    next
      case sh: None
      show ?thesis
      proof (cases "CheckBlock_txs ops bops sops block (vtx block) (state, [])")
        case (Return rt)
        obtain r tr where rt: "rt = (r, tr)" by (cases rt)
        with Return have "\<not> fst r" using CheckBlock_txs_Return by blast
        with nc i sh Return rt show ?thesis by (simp add: CheckBlock_def)
      next
        case (Next locals)
        obtain state1 tr1 where l: "locals = (state1, tr1)" by (cases locals)
        show ?thesis
        proof (cases "CheckBlock_budget c ops bops block state1")
          case (Some rt)
          obtain r tr where rt: "rt = (r, tr)" by (cases rt)
          with Some have "\<not> fst r" using CheckBlock_budget_Some by blast
          with nc i sh Next l Some rt show ?thesis by (simp add: CheckBlock_def)
        next
          case None
          with nc i sh Next l show ?thesis by (simp add: CheckBlock_def)
        qed
      qed
    qed
  qed
qed

text \<open>A run of \<open>CheckBlock\<close> leaves the flag as \<open>checked_by_CheckBlock\<close> describes it.\<close>

lemma CheckBlock_keeps_flag:
  assumes "checked_by_CheckBlock c ops bops sops block"
  shows "checked_by_CheckBlock c ops bops sops
           (block\<lparr> fChecked := fst (snd (CheckBlock c ops bops sops block state fCheckPOW
                                             fCheckMerkleRoot)) \<rparr>)"
proof (cases "fChecked block")
  case True
  then have "fst (snd (CheckBlock c ops bops sops block state fCheckPOW fCheckMerkleRoot))"
    by (simp add: CheckBlock_def)
  with True have "block\<lparr> fChecked := fst (snd (CheckBlock c ops bops sops block state fCheckPOW
                                             fCheckMerkleRoot)) \<rparr> = block"
    by simp
  with assms show ?thesis by simp
next
  case nc: False
  then have same: "block\<lparr> fChecked := False \<rparr> = block"
    by simp
  show ?thesis
  proof (cases "fst (snd (CheckBlock c ops bops sops block state fCheckPOW fCheckMerkleRoot))")
    case False
    then show ?thesis by (simp add: checked_by_CheckBlock_def)
  next
    case True
    with nc CheckBlock_flag_written [of c ops bops sops block state fCheckPOW fCheckMerkleRoot]
    have "fst (fst (CheckBlock c ops bops sops block state fCheckPOW fCheckMerkleRoot))
            \<and> fCheckPOW \<and> fCheckMerkleRoot"
      by blast
    then have acc: "fst (fst (CheckBlock c ops bops sops block state fCheckPOW
                                    fCheckMerkleRoot))"
      and both: "fCheckPOW" "fCheckMerkleRoot"
      by blast+
    from acc both same
    have "\<exists>state. fst (fst (CheckBlock c ops bops sops (block\<lparr> fChecked := False \<rparr>) state
                             True True))"
      by auto
    then show ?thesis
      by (simp add: checked_by_CheckBlock_def)
  qed
qed

text \<open>What the run that set the flag has checked.\<close>

lemma checked_by_CheckBlock_passed:
  assumes "checked_by_CheckBlock c ops bops sops block" and "fChecked block"
  shows "CheckBlock_shape ops bops (block\<lparr> fChecked := False \<rparr>) s0 = None
         \<and> (\<forall>tx \<in> set (vtx block).
               \<not> later_than_block bops (block\<lparr> fChecked := False \<rparr>) tx)"
proof -
  from assms obtain state where
    "fst (fst (CheckBlock c ops bops sops (block\<lparr> fChecked := False \<rparr>) state True True))"
    by (auto simp: checked_by_CheckBlock_def)
  with CheckBlock_verdict_iff [of c ops bops sops "block\<lparr> fChecked := False \<rparr>" state True True s0]
  show ?thesis by simp
qed

lemma checked_by_CheckBlock_shape:
  assumes "checked_by_CheckBlock c ops bops sops block"
    and "fst (fst (CheckBlock c ops bops sops block state fCheckPOW fCheckMerkleRoot))"
  shows "vtx block \<noteq> [] \<and> IsCoinBase ops (vtx block ! 0)
          \<and> (\<forall>i. 1 \<le> i \<and> i < length (vtx block) \<longrightarrow> \<not> IsCoinBase ops (vtx block ! i))
          \<and> (\<forall>i. 2 \<le> i \<and> i < length (vtx block) \<longrightarrow> \<not> IsCoinStake ops (vtx block ! i))"
proof (cases "fChecked block")
  case True
  with assms(1) have "CheckBlock_shape ops bops (block\<lparr> fChecked := False \<rparr>) state = None"
    using checked_by_CheckBlock_passed by blast
  from CheckBlock_shape_None [OF this] show ?thesis by simp
next
  case False
  with assms(2)
    CheckBlock_verdict_iff [of c ops bops sops block state fCheckPOW fCheckMerkleRoot state]
  have "CheckBlock_shape ops bops block state = None"
    by simp
  then show ?thesis by (rule CheckBlock_shape_None)
qed


text \<open>
  Claim C3.  Take a block whose flag \<open>fChecked\<close> is as the code leaves it: unset, or set by
  an earlier accepting run of \<open>CheckBlock\<close> on this block.  \<open>CheckBlock\<close> returns true only if
  the transaction at index 0 is a coinbase, no transaction at an index \<open>\<ge> 1\<close> is a
  coinbase and no transaction at an index \<open>\<ge> 2\<close> is a coinstake.  If the block passes the
  proof-of-work, header, merkle and size checks, starts with a coinbase and holds a second
  coinbase, it is rejected by the call
  \<open>state.DoS(100, false, REJECT_INVALID, "bad-cb-multiple")\<close>.  Every run of \<open>CheckBlock\<close>
  leaves the flag in such a state.
\<close>

theorem CheckBlock_coinbase_shape:
  "(checked_by_CheckBlock c ops bops sops block
      \<and> fst (fst (CheckBlock c ops bops sops block state fCheckPOW fCheckMerkleRoot))
      \<longrightarrow> vtx block \<noteq> [] \<and> IsCoinBase ops (vtx block ! 0)
          \<and> (\<forall>i. 1 \<le> i \<and> i < length (vtx block) \<longrightarrow> \<not> IsCoinBase ops (vtx block ! i))
          \<and> (\<forall>i. 2 \<le> i \<and> i < length (vtx block) \<longrightarrow> \<not> IsCoinStake ops (vtx block ! i)))
   \<and> (checked_by_CheckBlock c ops bops sops block
        \<and> CheckBlock_integrity c bops block state fCheckPOW fCheckMerkleRoot = None
        \<and> IsCoinBase ops (vtx block ! 0)
        \<and> (\<exists>i. 1 \<le> i \<and> i < length (vtx block) \<and> IsCoinBase ops (vtx block ! i))
      \<longrightarrow> fst (CheckBlock c ops bops sops block state fCheckPOW fCheckMerkleRoot)
            = DoS 100 False REJECT_INVALID ''bad-cb-multiple'' False state)
   \<and> (checked_by_CheckBlock c ops bops sops block
      \<longrightarrow> checked_by_CheckBlock c ops bops sops
            (block\<lparr> fChecked := fst (snd (CheckBlock c ops bops sops block state fCheckPOW
                                              fCheckMerkleRoot)) \<rparr>))"
proof -
  have one: "checked_by_CheckBlock c ops bops sops block
      \<and> fst (fst (CheckBlock c ops bops sops block state fCheckPOW fCheckMerkleRoot))
      \<longrightarrow> vtx block \<noteq> [] \<and> IsCoinBase ops (vtx block ! 0)
          \<and> (\<forall>i. 1 \<le> i \<and> i < length (vtx block) \<longrightarrow> \<not> IsCoinBase ops (vtx block ! i))
          \<and> (\<forall>i. 2 \<le> i \<and> i < length (vtx block) \<longrightarrow> \<not> IsCoinStake ops (vtx block ! i))"
    using checked_by_CheckBlock_shape [of c ops bops sops block state fCheckPOW fCheckMerkleRoot]
    by blast
  have two: "checked_by_CheckBlock c ops bops sops block
        \<and> CheckBlock_integrity c bops block state fCheckPOW fCheckMerkleRoot = None
        \<and> IsCoinBase ops (vtx block ! 0)
        \<and> (\<exists>i. 1 \<le> i \<and> i < length (vtx block) \<and> IsCoinBase ops (vtx block ! i))
      \<longrightarrow> fst (CheckBlock c ops bops sops block state fCheckPOW fCheckMerkleRoot)
            = DoS 100 False REJECT_INVALID ''bad-cb-multiple'' False state"
  proof
    assume h: "checked_by_CheckBlock c ops bops sops block
        \<and> CheckBlock_integrity c bops block state fCheckPOW fCheckMerkleRoot = None
        \<and> IsCoinBase ops (vtx block ! 0)
        \<and> (\<exists>i. 1 \<le> i \<and> i < length (vtx block) \<and> IsCoinBase ops (vtx block ! i))"
    have nc: "\<not> fChecked block"
    proof
      assume "fChecked block"
      with h have "CheckBlock_shape ops bops (block\<lparr> fChecked := False \<rparr>) state = None"
        using checked_by_CheckBlock_passed by blast
      from CheckBlock_shape_None [OF this]
      have "\<forall>i. 1 \<le> i \<and> i < length (vtx block) \<longrightarrow> \<not> IsCoinBase ops (vtx block ! i)"
        by simp
      with h show False by blast
    qed
    from h have ne: "vtx block \<noteq> []"
      using CheckBlock_integrity_None_nonempty by blast
    from h have more: "CheckBlock_more_coinbase ops (vtx block) 1"
      by (simp add: CheckBlock_more_coinbase_iff)
    from h ne more
    have "CheckBlock_shape ops bops block state
            = Some (DoS 100 False REJECT_INVALID ''bad-cb-multiple'' False state,
                    [Log ''CheckBlock(): more than one coinbase''])"
      by (simp add: CheckBlock_shape_def)
    with h nc show "fst (CheckBlock c ops bops sops block state fCheckPOW fCheckMerkleRoot)
            = DoS 100 False REJECT_INVALID ''bad-cb-multiple'' False state"
      by (simp add: CheckBlock_def)
  qed
  have three: "checked_by_CheckBlock c ops bops sops block
      \<longrightarrow> checked_by_CheckBlock c ops bops sops
            (block\<lparr> fChecked := fst (snd (CheckBlock c ops bops sops block state fCheckPOW
                                              fCheckMerkleRoot)) \<rparr>)"
    using CheckBlock_keeps_flag [of c ops bops sops block state fCheckPOW fCheckMerkleRoot]
    by blast
  from one two three show ?thesis
    by (intro conjI)
qed

lemma example_block_flagged:
  "fst (snd (CheckBlock example_consts example_tx_ops example_block_ops example_service_absent
         (example_cblock [example_coinbase, example_payment 2 4000] False) example_state True True))"
  using example_block_accepted
    CheckBlock_flag_written [of example_consts example_tx_ops example_block_ops
      example_service_absent "example_cblock [example_coinbase, example_payment 2 4000] False"
      example_state True True]
  by simp

theorem CheckBlock_coinbase_shape_witness:
  "fst (CheckBlock example_consts example_tx_ops example_block_ops example_service_absent
         (example_cblock [example_coinbase, example_coinbase] False) example_state True True)
     = DoS 100 False REJECT_INVALID ''bad-cb-multiple'' False example_state
   \<and> fst (snd (CheckBlock example_consts example_tx_ops example_block_ops example_service_absent
         (example_cblock [example_coinbase, example_payment 2 4000] False) example_state True True))
   \<and> checked_by_CheckBlock example_consts example_tx_ops example_block_ops example_service_absent
         (example_cblock [example_coinbase, example_payment 2 4000] True)
   \<and> fst (fst (CheckBlock example_consts example_tx_ops example_block_ops example_service_absent
         (example_cblock [example_coinbase, example_payment 2 4000] True) example_state True True))
   \<and> IsCoinBase example_tx_ops example_coinbase
   \<and> \<not> IsCoinBase example_tx_ops (example_payment 2 4000)"
proof -
  let ?two = "example_cblock [example_coinbase, example_coinbase] False"
  let ?ok = "example_cblock [example_coinbase, example_payment 2 4000] False"
  let ?cached = "example_cblock [example_coinbase, example_payment 2 4000] True"
  have hyp: "checked_by_CheckBlock example_consts example_tx_ops example_block_ops
               example_service_absent ?two
      \<and> CheckBlock_integrity example_consts example_block_ops ?two example_state True True = None
      \<and> IsCoinBase example_tx_ops (vtx ?two ! 0)
      \<and> (\<exists>i. 1 \<le> i \<and> i < length (vtx ?two) \<and> IsCoinBase example_tx_ops (vtx ?two ! i))"
  proof -
    have "IsCoinBase example_tx_ops (vtx ?two ! 1)" "(1::nat) < length (vtx ?two)"
      by (simp_all add: example_block_defs)
    then have "\<exists>i. 1 \<le> i \<and> i < length (vtx ?two) \<and> IsCoinBase example_tx_ops (vtx ?two ! i)"
      by (intro exI [of _ 1]) simp
    moreover have "checked_by_CheckBlock example_consts example_tx_ops example_block_ops
               example_service_absent ?two"
      "CheckBlock_integrity example_consts example_block_ops ?two example_state True True = None"
      "IsCoinBase example_tx_ops (vtx ?two ! 0)"
      by (simp_all add: checked_by_CheckBlock_def CheckBlock_integrity_def example_block_defs)
    ultimately show ?thesis by blast
  qed
  from CheckBlock_coinbase_shape [of example_consts example_tx_ops example_block_ops
      example_service_absent ?two example_state True True] hyp
  have first: "fst (CheckBlock example_consts example_tx_ops example_block_ops
                      example_service_absent ?two example_state True True)
                 = DoS 100 False REJECT_INVALID ''bad-cb-multiple'' False example_state"
    by blast
  have fresh: "checked_by_CheckBlock example_consts example_tx_ops example_block_ops
                 example_service_absent ?ok"
    by (simp add: checked_by_CheckBlock_def example_cblock_def)
  have upd: "?ok\<lparr> fChecked := True \<rparr> = ?cached"
    by (simp add: example_cblock_def)
  from CheckBlock_coinbase_shape [of example_consts example_tx_ops example_block_ops
      example_service_absent ?ok example_state True True] fresh
  have "checked_by_CheckBlock example_consts example_tx_ops example_block_ops
          example_service_absent
          (?ok\<lparr> fChecked := fst (snd (CheckBlock example_consts example_tx_ops example_block_ops
                                        example_service_absent ?ok example_state True True)) \<rparr>)"
    by blast
  with example_block_flagged upd
  have cached: "checked_by_CheckBlock example_consts example_tx_ops example_block_ops
                  example_service_absent ?cached"
    by simp
  have acc: "fst (fst (CheckBlock example_consts example_tx_ops example_block_ops
                         example_service_absent ?cached example_state True True))"
    by (simp add: CheckBlock_def example_cblock_def)
  from CheckBlock_coinbase_shape [of example_consts example_tx_ops example_block_ops
      example_service_absent ?cached example_state True True] cached acc
  have "IsCoinBase example_tx_ops (vtx ?cached ! 0)"
    and "1 \<le> (1::nat) \<and> 1 < length (vtx ?cached) \<longrightarrow> \<not> IsCoinBase example_tx_ops (vtx ?cached ! 1)"
    by blast+
  then have "IsCoinBase example_tx_ops example_coinbase"
    "\<not> IsCoinBase example_tx_ops (example_payment 2 4000)"
    by (simp_all add: example_cblock_def)
  with first example_block_flagged cached acc show ?thesis
    by blast
qed

text \<open>
  Claim C10.  Take a block whose flag \<open>fChecked\<close> is as the code leaves it, with a
  \<open>GetBlockTime\<close> that reads the header and not that flag.  If the block contains a
  transaction whose \<open>nTime\<close> is strictly greater than the block's timestamp, \<open>CheckBlock\<close>
  returns false.  Every run of \<open>CheckBlock\<close> leaves the flag in such a state.
\<close>

theorem CheckBlock_rejects_late_transaction:
  "(checked_by_CheckBlock c ops bops sops block
      \<and> GetBlockTime bops (block\<lparr> fChecked := False \<rparr>) = GetBlockTime bops block
      \<and> (\<exists>tx \<in> set (vtx block). later_than_block bops block tx)
      \<longrightarrow> \<not> fst (fst (CheckBlock c ops bops sops block state fCheckPOW fCheckMerkleRoot)))
   \<and> (checked_by_CheckBlock c ops bops sops block
      \<longrightarrow> checked_by_CheckBlock c ops bops sops
            (block\<lparr> fChecked := fst (snd (CheckBlock c ops bops sops block state fCheckPOW
                                              fCheckMerkleRoot)) \<rparr>))"
proof -
  have one: "checked_by_CheckBlock c ops bops sops block
      \<and> GetBlockTime bops (block\<lparr> fChecked := False \<rparr>) = GetBlockTime bops block
      \<and> (\<exists>tx \<in> set (vtx block). later_than_block bops block tx)
      \<longrightarrow> \<not> fst (fst (CheckBlock c ops bops sops block state fCheckPOW fCheckMerkleRoot))"
  proof
    assume h: "checked_by_CheckBlock c ops bops sops block
      \<and> GetBlockTime bops (block\<lparr> fChecked := False \<rparr>) = GetBlockTime bops block
      \<and> (\<exists>tx \<in> set (vtx block). later_than_block bops block tx)"
    then obtain tx where tx: "tx \<in> set (vtx block)" and late: "later_than_block bops block tx"
      by blast
    have nc: "\<not> fChecked block"
    proof
      assume "fChecked block"
      with h have "\<forall>tx \<in> set (vtx block).
                     \<not> later_than_block bops (block\<lparr> fChecked := False \<rparr>) tx"
        using checked_by_CheckBlock_passed [of c ops bops sops block] by blast
      with tx have "\<not> later_than_block bops (block\<lparr> fChecked := False \<rparr>) tx"
        by blast
      with h late show False
        by (simp add: later_than_block_def)
    qed
    with tx late
      CheckBlock_verdict_iff [of c ops bops sops block state fCheckPOW fCheckMerkleRoot state]
    show "\<not> fst (fst (CheckBlock c ops bops sops block state fCheckPOW fCheckMerkleRoot))"
      by blast
  qed
  have two: "checked_by_CheckBlock c ops bops sops block
      \<longrightarrow> checked_by_CheckBlock c ops bops sops
            (block\<lparr> fChecked := fst (snd (CheckBlock c ops bops sops block state fCheckPOW
                                              fCheckMerkleRoot)) \<rparr>)"
    using CheckBlock_keeps_flag [of c ops bops sops block state fCheckPOW fCheckMerkleRoot]
    by blast
  from one two show ?thesis
    by (intro conjI)
qed

theorem CheckBlock_rejects_late_transaction_witness:
  "later_than_block example_block_ops
     (example_cblock [example_coinbase, example_payment 1 6000] False) (example_payment 1 6000)
   \<and> \<not> fst (fst (CheckBlock example_consts example_tx_ops example_block_ops example_service_absent
         (example_cblock [example_coinbase, example_payment 1 6000] False) example_state True True))
   \<and> \<not> fst (snd (CheckBlock example_consts example_tx_ops example_block_ops example_service_absent
         (example_cblock [example_coinbase, example_payment 1 6000] False) example_state True True))"
proof -
  let ?b = "example_cblock [example_coinbase, example_payment 1 6000] False"
  have late: "later_than_block example_block_ops ?b (example_payment 1 6000)"
    by (simp add: later_than_block_def example_block_defs word_sless_alt)
  have hyps: "checked_by_CheckBlock example_consts example_tx_ops example_block_ops
                example_service_absent ?b"
    "GetBlockTime example_block_ops (?b\<lparr> fChecked := False \<rparr>) = GetBlockTime example_block_ops ?b"
    "example_payment 1 6000 \<in> set (vtx ?b)"
    by (simp_all add: checked_by_CheckBlock_def example_cblock_def example_block_ops_def)
  with late CheckBlock_rejects_late_transaction [of example_consts example_tx_ops
      example_block_ops example_service_absent ?b example_state True True]
  have rej: "\<not> fst (fst (CheckBlock example_consts example_tx_ops example_block_ops
                           example_service_absent ?b example_state True True))"
    by blast
  have "\<not> fChecked ?b"
    by (simp add: example_cblock_def)
  with rej CheckBlock_flag_written [of example_consts example_tx_ops example_block_ops
      example_service_absent ?b example_state True True]
  have "\<not> fst (snd (CheckBlock example_consts example_tx_ops example_block_ops
                       example_service_absent ?b example_state True True))"
    by simp
  with late rej show ?thesis by blast
qed

text \<open>
  Claim C8.  The service-transaction side channel has no part in the decision of
  \<open>CheckBlock\<close>: the returned flag is the same for every behaviour of the lookup, of
  \<open>CheckServiceTransaction\<close> and of \<open>ProcessServiceCommand\<close>.  For a transaction of version 2
  that passes \<open>CheckTransaction\<close> and is not stamped later than the block, an absent
  service transaction makes the loop iteration log, request the service transaction from
  the peers (\<open>AskFor\<close>) and go on to the next transaction; a failing
  \<open>CheckServiceTransaction\<close> makes it log the failure and go on.  In an accepted block that
  was not cached as checked, every version-2 transaction with an absent service
  transaction has been requested.
\<close>

theorem CheckBlock_service_transaction_non_fatal:
  "fst (fst (CheckBlock c ops bops sops block state fCheckPOW fCheckMerkleRoot))
     = fst (fst (CheckBlock c ops bops sops' block state' fCheckPOW fCheckMerkleRoot))
   \<and> (CheckTransaction ops tx = None \<and> nVersion tx = 2 \<and> \<not> later_than_block bops block tx
        \<and> lookup sops (serviceReferenceHash tx) = None
      \<longrightarrow> CheckBlock_tx ops bops sops block tx (state, tr)
            = Next (state, tr @ [Log ''tx pays for service transaction but none can be found'',
                                 Log ''Requesting stx'', AskFor (serviceReferenceHash tx)]))
   \<and> (CheckTransaction ops tx = None \<and> nVersion tx = 2 \<and> \<not> later_than_block bops block tx
        \<and> lookup sops (serviceReferenceHash tx) = Some stx
        \<and> CheckServiceTransaction sops stx tx state = (False, state1)
      \<longrightarrow> CheckBlock_tx ops bops sops block tx (state, tr)
            = Next (state1,
                    tr @ [Log ''CheckBlock(): CheckServiceTransaction failed. This is a non fatal error'']))
   \<and> (\<not> fChecked block
        \<and> fst (fst (CheckBlock c ops bops sops block state fCheckPOW fCheckMerkleRoot))
      \<longrightarrow> (\<forall>tx \<in> set (vtx block).
             nVersion tx = 2 \<and> lookup sops (serviceReferenceHash tx) = None
             \<longrightarrow> AskFor (serviceReferenceHash tx)
                   \<in> set (snd (snd (CheckBlock c ops bops sops block state fCheckPOW
                                      fCheckMerkleRoot)))))"
proof -
  have one: "fst (fst (CheckBlock c ops bops sops block state fCheckPOW fCheckMerkleRoot))
     = fst (fst (CheckBlock c ops bops sops' block state' fCheckPOW fCheckMerkleRoot))"
    using CheckBlock_verdict_iff [of c ops bops sops block state fCheckPOW fCheckMerkleRoot state]
      CheckBlock_verdict_iff [of c ops bops sops' block state' fCheckPOW fCheckMerkleRoot state]
    by simp
  have two: "CheckTransaction ops tx = None \<and> nVersion tx = 2 \<and> \<not> later_than_block bops block tx
        \<and> lookup sops (serviceReferenceHash tx) = None
      \<longrightarrow> CheckBlock_tx ops bops sops block tx (state, tr)
            = Next (state, tr @ [Log ''tx pays for service transaction but none can be found'',
                                 Log ''Requesting stx'', AskFor (serviceReferenceHash tx)])"
    by (simp add: CheckBlock_tx_def CheckBlock_service_absent later_than_block_def)
  have three: "CheckTransaction ops tx = None \<and> nVersion tx = 2 \<and> \<not> later_than_block bops block tx
        \<and> lookup sops (serviceReferenceHash tx) = Some stx
        \<and> CheckServiceTransaction sops stx tx state = (False, state1)
      \<longrightarrow> CheckBlock_tx ops bops sops block tx (state, tr)
            = Next (state1,
                    tr @ [Log ''CheckBlock(): CheckServiceTransaction failed. This is a non fatal error''])"
    by (simp add: CheckBlock_tx_def CheckBlock_service_failed later_than_block_def)
  have four: "\<not> fChecked block
        \<and> fst (fst (CheckBlock c ops bops sops block state fCheckPOW fCheckMerkleRoot))
      \<longrightarrow> (\<forall>tx \<in> set (vtx block).
             nVersion tx = 2 \<and> lookup sops (serviceReferenceHash tx) = None
             \<longrightarrow> AskFor (serviceReferenceHash tx)
                   \<in> set (snd (snd (CheckBlock c ops bops sops block state fCheckPOW
                                      fCheckMerkleRoot))))"
    using CheckBlock_accept_trace [of block c ops bops sops state fCheckPOW fCheckMerkleRoot]
    by blast
  from one two three four show ?thesis
    by (intro conjI)
qed


theorem CheckBlock_service_transaction_non_fatal_witness:
  "fst (fst (CheckBlock example_consts example_tx_ops example_block_ops example_service_failing
         (example_cblock [example_coinbase, example_payment 2 4000] False) example_state True True))
   \<and> AskFor 99 \<in> set (snd (snd
         (CheckBlock example_consts example_tx_ops example_block_ops example_service_absent
            (example_cblock [example_coinbase, example_payment 2 4000] False) example_state True
            True)))
   \<and> CheckBlock_tx example_tx_ops example_block_ops example_service_failing
         (example_cblock [example_coinbase, example_payment 2 4000] False) (example_payment 2 4000)
         (example_state, [])
       = Next (snd (DoS 10 False REJECT_INVALID ''bad-stx'' False example_state),
               [Log ''CheckBlock(): CheckServiceTransaction failed. This is a non fatal error''])"
proof -
  let ?b = "example_cblock [example_coinbase, example_payment 2 4000] False"
  let ?tx = "example_payment 2 4000"
  note inst = CheckBlock_service_transaction_non_fatal [of example_consts example_tx_ops
      example_block_ops example_service_absent ?b example_state True True example_service_failing
      example_state ?tx "[]" 0 "snd (DoS 10 False REJECT_INVALID ''bad-stx'' False example_state)"]
  from inst example_block_accepted
  have one: "fst (fst (CheckBlock example_consts example_tx_ops example_block_ops
                         example_service_failing ?b example_state True True))"
    by blast
  have pre: "\<not> fChecked ?b" "?tx \<in> set (vtx ?b)" "nVersion ?tx = 2"
    "lookup example_service_absent (serviceReferenceHash ?tx) = None"
    "serviceReferenceHash ?tx = 99"
    by (simp_all add: example_block_defs)
  from inst example_block_accepted pre
  have two: "AskFor 99 \<in> set (snd (snd
         (CheckBlock example_consts example_tx_ops example_block_ops example_service_absent ?b
            example_state True True)))"
    by (metis (no_types, lifting))
  note inst' = CheckBlock_service_transaction_non_fatal [of example_consts example_tx_ops
      example_block_ops example_service_failing ?b example_state True True example_service_failing
      example_state ?tx "[]" 0 "snd (DoS 10 False REJECT_INVALID ''bad-stx'' False example_state)"]
  have pre': "CheckTransaction example_tx_ops ?tx = None"
    "\<not> later_than_block example_block_ops ?b ?tx"
    "lookup example_service_failing (serviceReferenceHash ?tx) = Some 0"
    "CheckServiceTransaction example_service_failing 0 ?tx example_state
       = (False, snd (DoS 10 False REJECT_INVALID ''bad-stx'' False example_state))"
    by (simp_all add: example_block_defs later_than_block_def word_sless_alt DoS_def
        Let_def example_state_def)
  from inst' pre' pre(3)
  have three: "CheckBlock_tx example_tx_ops example_block_ops example_service_failing ?b ?tx
                 (example_state, [])
       = Next (snd (DoS 10 False REJECT_INVALID ''bad-stx'' False example_state),
               [] @ [Log ''CheckBlock(): CheckServiceTransaction failed. This is a non fatal error''])"
    by blast
  from one two three show ?thesis
    by simp
qed

section \<open>Properties of \<open>CheckInputs\<close>\<close>

lemma DoS_False: "fst (DoS level False code reason corruption state) = False"
  by (simp add: DoS_def Let_def)

lemma Invalid_False: "fst (Invalid False code reason state) = False"
  by (simp add: Invalid_def DoS_False)

lemma CheckTxInputs_balance_True:
  "CheckTxInputs_balance c ops chain tx state locals = (True, s1) \<Longrightarrow> s1 = state"
  by (auto simp: CheckTxInputs_balance_def Let_def DoS_def split: if_splits option.splits)

lemma CheckTxInputs_True_state:
  assumes "CheckTxInputs c ops chain tx state inputs h = Inr (True, s1)"
  shows "s1 = state \<and> HaveInputs ops inputs tx"
proof (cases "HaveInputs ops inputs tx")
  case False
  with assms show ?thesis
    using Invalid_False [of REJECT_NONE "[]" state] by (simp add: CheckTxInputs_def)
next
  case True
  show ?thesis
  proof (cases "CheckTxInputs_loop c ops chain inputs tx state (vin tx) (0, - 1)")
    case (Inl f)
    with assms True show ?thesis by (simp add: CheckTxInputs_def)
  next
    case (Inr fl)
    show ?thesis
    proof (cases fl)
      case (Return r)
      with Inr have "fst r = False"
        using CheckTxInputs_loop_Return by blast
      with assms True Inr Return show ?thesis by (simp add: CheckTxInputs_def)
    next
      case (Next locals)
      with assms True Inr have "CheckTxInputs_balance c ops chain tx state locals = (True, s1)"
        by (simp add: CheckTxInputs_def)
      with True show ?thesis using CheckTxInputs_balance_True by blast
    qed
  qed
qed

lemma CheckInputs_input_cases:
  "CheckInputs_input c sc tx state inputs flags cacheStore False i = Inr (Next added)
     \<longleftrightarrow> added = [] \<and> (\<exists>coin. inputs (prevout (vin tx ! i)) = Some coin
            \<and> VerifyScript sc (scriptSig (vin tx ! i)) (scriptPubKey (out coin)) flags tx i
                 cacheStore = None)"
  by (auto simp: CheckInputs_input_def Let_def split: option.splits)

lemma CheckInputs_input_Return:
  "CheckInputs_input c sc tx state inputs flags cacheStore False i = Inr (Return r)
     \<Longrightarrow> \<not> fst r"
  by (auto simp: CheckInputs_input_def Let_def DoS_False Invalid_False
      split: option.splits if_splits)

lemma CheckInputs_input_total:
  "inputs (prevout (vin tx ! i)) \<noteq> None
     \<Longrightarrow> \<exists>fl. CheckInputs_input c sc tx state inputs flags cacheStore False i = Inr fl"
  by (auto simp: CheckInputs_input_def Let_def split: option.splits)

lemma CheckInputs_loop_Return:
  "\<not> pvChecks \<Longrightarrow>
   CheckInputs_loop c sc tx state inputs flags cacheStore pvChecks i pushed = Inr (Return r)
     \<Longrightarrow> \<not> fst r"
proof (induction c sc tx state inputs flags cacheStore pvChecks i pushed
       rule: CheckInputs_loop.induct)
  case (1 c sc tx state inputs flags cacheStore pvChecks i pushed)
  note loop = CheckInputs_loop.simps [of c sc tx state inputs flags cacheStore _ i pushed]
  show ?case
  proof (cases "i < length (vin tx)")
    case False
    with "1.prems" show ?thesis by (simp add: loop)
  next
    case True
    show ?thesis
    proof (cases "CheckInputs_input c sc tx state inputs flags cacheStore pvChecks i")
      case (Inl f)
      with "1.prems" True show ?thesis
        by (simp add: loop)
    next
      case (Inr fl)
      show ?thesis
      proof (cases fl)
        case (Return r')
        with "1.prems" True Inr have "r' = r"
          by (simp add: loop)
        with Inr Return "1.prems"(1) show ?thesis using CheckInputs_input_Return by simp
      next
        case (Next added)
        with "1.prems" True Inr
        have "CheckInputs_loop c sc tx state inputs flags cacheStore pvChecks (Suc i)
                (pushed @ added) = Inr (Return r)"
          by (simp add: loop)
        with "1.IH" [OF True Inr Next "1.prems"(1)] show ?thesis by simp
      qed
    qed
  qed
qed

text \<open>
  A pass of the script loop that succeeds has found the coin of every input and has
  verified its script.
\<close>

lemma CheckInputs_loop_Next:
  "\<not> pvChecks \<Longrightarrow>
   CheckInputs_loop c sc tx state inputs flags cacheStore pvChecks i pushed = Inr (Next p)
     \<Longrightarrow> p = pushed
         \<and> (\<forall>j. i \<le> j \<and> j < length (vin tx) \<longrightarrow>
               (\<exists>coin. inputs (prevout (vin tx ! j)) = Some coin
                  \<and> VerifyScript sc (scriptSig (vin tx ! j)) (scriptPubKey (out coin)) flags tx j
                       cacheStore = None))"
proof (induction c sc tx state inputs flags cacheStore pvChecks i pushed
       rule: CheckInputs_loop.induct)
  case (1 c sc tx state inputs flags cacheStore pvChecks i pushed)
  note loop = CheckInputs_loop.simps [of c sc tx state inputs flags cacheStore _ i pushed]
  show ?case
  proof (cases "i < length (vin tx)")
    case False
    with "1.prems" show ?thesis by (auto simp: loop)
  next
    case True
    show ?thesis
    proof (cases "CheckInputs_input c sc tx state inputs flags cacheStore pvChecks i")
      case (Inl f)
      with "1.prems" True show ?thesis
        by (simp add: loop)
    next
      case (Inr fl)
      show ?thesis
      proof (cases fl)
        case (Return r')
        with "1.prems" True Inr show ?thesis
          by (simp add: loop)
      next
        case (Next added)
        with Inr "1.prems"(1)
        have here: "added = [] \<and> (\<exists>coin. inputs (prevout (vin tx ! i)) = Some coin
            \<and> VerifyScript sc (scriptSig (vin tx ! i)) (scriptPubKey (out coin)) flags tx i
                 cacheStore = None)"
          using CheckInputs_input_cases [of c sc tx state inputs flags cacheStore i added]
          by simp
        from "1.prems" True Inr Next
        have "CheckInputs_loop c sc tx state inputs flags cacheStore pvChecks (Suc i)
                (pushed @ added) = Inr (Next p)"
          by (simp add: loop)
        with "1.IH" [OF True Inr Next "1.prems"(1)]
        have rest: "p = pushed @ added
           \<and> (\<forall>j. Suc i \<le> j \<and> j < length (vin tx) \<longrightarrow>
               (\<exists>coin. inputs (prevout (vin tx ! j)) = Some coin
                  \<and> VerifyScript sc (scriptSig (vin tx ! j)) (scriptPubKey (out coin)) flags tx j
                       cacheStore = None))"
          by simp
        show ?thesis
        proof (intro conjI allI impI)
          from rest here show "p = pushed" by simp
        next
          fix j assume j: "i \<le> j \<and> j < length (vin tx)"
          show "\<exists>coin. inputs (prevout (vin tx ! j)) = Some coin
                  \<and> VerifyScript sc (scriptSig (vin tx ! j)) (scriptPubKey (out coin)) flags tx j
                       cacheStore = None"
          proof (cases "j = i")
            case True
            with here show ?thesis by simp
          next
            case False
            with j have "Suc i \<le> j \<and> j < length (vin tx)" by simp
            with rest show ?thesis by blast
          qed
        qed
      qed
    qed
  qed
qed

text \<open>Conversely, when every input has its coin and verifies, the loop succeeds.\<close>

lemma CheckInputs_loop_succeeds:
  "\<not> pvChecks \<Longrightarrow>
   \<forall>j. i \<le> j \<and> j < length (vin tx) \<longrightarrow>
       (\<exists>coin. inputs (prevout (vin tx ! j)) = Some coin
          \<and> VerifyScript sc (scriptSig (vin tx ! j)) (scriptPubKey (out coin)) flags tx j
               cacheStore = None) \<Longrightarrow>
   CheckInputs_loop c sc tx state inputs flags cacheStore pvChecks i pushed = Inr (Next pushed)"
proof (induction c sc tx state inputs flags cacheStore pvChecks i pushed
       rule: CheckInputs_loop.induct)
  case (1 c sc tx state inputs flags cacheStore pvChecks i pushed)
  note loop = CheckInputs_loop.simps [of c sc tx state inputs flags cacheStore _ i pushed]
  show ?case
  proof (cases "i < length (vin tx)")
    case False
    then show ?thesis by (simp add: loop)
  next
    case True
    with "1.prems"(2)
    have "\<exists>coin. inputs (prevout (vin tx ! i)) = Some coin
            \<and> VerifyScript sc (scriptSig (vin tx ! i)) (scriptPubKey (out coin)) flags tx i
                 cacheStore = None"
      by simp
    with "1.prems"(1)
    have here: "CheckInputs_input c sc tx state inputs flags cacheStore pvChecks i
                  = Inr (Next [])"
      using CheckInputs_input_cases [of c sc tx state inputs flags cacheStore i "[]"] by simp
    from "1.prems"(2)
    have "\<forall>j. Suc i \<le> j \<and> j < length (vin tx) \<longrightarrow>
       (\<exists>coin. inputs (prevout (vin tx ! j)) = Some coin
          \<and> VerifyScript sc (scriptSig (vin tx ! j)) (scriptPubKey (out coin)) flags tx j
               cacheStore = None)"
      by simp
    from "1.IH" [OF True here refl "1.prems"(1) this] True here show ?thesis
      by (simp add: loop)
  qed
qed

text \<open>When every input has its coin, the loop ends without a fault, whatever the flags.\<close>

lemma CheckInputs_loop_total:
  "\<not> pvChecks \<Longrightarrow>
   \<forall>j. i \<le> j \<and> j < length (vin tx) \<longrightarrow> inputs (prevout (vin tx ! j)) \<noteq> None \<Longrightarrow>
   \<exists>fl. CheckInputs_loop c sc tx state inputs flags cacheStore pvChecks i pushed = Inr fl"
proof (induction c sc tx state inputs flags cacheStore pvChecks i pushed
       rule: CheckInputs_loop.induct)
  case (1 c sc tx state inputs flags cacheStore pvChecks i pushed)
  note loop = CheckInputs_loop.simps [of c sc tx state inputs flags cacheStore _ i pushed]
  show ?case
  proof (cases "i < length (vin tx)")
    case False
    then show ?thesis by (simp add: loop)
  next
    case True
    with "1.prems"(2) have "inputs (prevout (vin tx ! i)) \<noteq> None"
      by simp
    with "1.prems"(1)
    obtain fl where fl: "CheckInputs_input c sc tx state inputs flags cacheStore pvChecks i = Inr fl"
      using CheckInputs_input_total [of inputs tx i c sc state flags cacheStore] by auto
    show ?thesis
    proof (cases fl)
      case (Return r)
      with True fl show ?thesis by (simp add: loop)
    next
      case (Next added)
      from "1.prems"(2)
      have "\<forall>j. Suc i \<le> j \<and> j < length (vin tx) \<longrightarrow> inputs (prevout (vin tx ! j)) \<noteq> None"
        by simp
      from "1.IH" [OF True fl Next "1.prems"(1) this] True fl Next show ?thesis
        by (simp add: loop)
    qed
  qed
qed


text \<open>What a successful run of \<open>CheckInputs\<close> without a check vector tells.\<close>

lemma CheckInputs_True:
  assumes "CheckInputs c ops sc chain tx state inputs True flags cacheStore False
             = Inr ((True, s1), p)"
  shows "s1 = state \<and> p = []
         \<and> (IsCoinBase ops tx
            \<or> (\<exists>h. GetSpendHeight chain = Inr h
                  \<and> CheckTxInputs c ops chain tx state inputs (scast h) = Inr (True, state)
                  \<and> HaveInputs ops inputs tx
                  \<and> (\<forall>j. j < length (vin tx) \<longrightarrow>
                        (\<exists>coin. inputs (prevout (vin tx ! j)) = Some coin
                           \<and> VerifyScript sc (scriptSig (vin tx ! j)) (scriptPubKey (out coin))
                                flags tx j cacheStore = None))))"
proof (cases "IsCoinBase ops tx")
  case True
  with assms show ?thesis by (simp add: CheckInputs_def)
next
  case False
  from assms False obtain h where h: "GetSpendHeight chain = Inr h"
    by (cases "GetSpendHeight chain") (simp_all add: CheckInputs_def)
  from assms False h obtain b s where
    cti: "CheckTxInputs c ops chain tx state inputs (scast h) = Inr (b, s)"
    by (cases "CheckTxInputs c ops chain tx state inputs (scast h)")
       (auto simp: CheckInputs_def)
  from assms False h cti have b: "b"
    by (cases b) (simp_all add: CheckInputs_def)
  with cti have "CheckTxInputs c ops chain tx state inputs (scast h) = Inr (True, s)"
    by simp
  from CheckTxInputs_True_state [OF this]
  have s: "s = state" and hi: "HaveInputs ops inputs tx"
    by simp_all
  from assms False h cti b s obtain fl where
    loop: "CheckInputs_loop c sc tx state inputs flags cacheStore False 0 [] = Inr fl"
    by (cases "CheckInputs_loop c sc tx state inputs flags cacheStore False 0 []")
       (simp_all add: CheckInputs_def)
  show ?thesis
  proof (cases fl)
    case (Return r)
    with loop have "\<not> fst r"
      using CheckInputs_loop_Return [of False] by blast
    with assms False h cti b s loop Return show ?thesis
      by (cases r) (simp add: CheckInputs_def)
  next
    case (Next pushed)
    with loop
    have all: "pushed = [] \<and> (\<forall>j. 0 \<le> j \<and> j < length (vin tx) \<longrightarrow>
               (\<exists>coin. inputs (prevout (vin tx ! j)) = Some coin
                  \<and> VerifyScript sc (scriptSig (vin tx ! j)) (scriptPubKey (out coin)) flags tx j
                       cacheStore = None))"
      using CheckInputs_loop_Next [of False c sc tx state inputs flags cacheStore 0 "[]" pushed]
      by simp
    from assms False h cti b s loop Next have "s1 = state" "p = pushed"
      by (simp_all add: CheckInputs_def)
    with all False h cti b s hi show ?thesis
      by simp
  qed
qed

text \<open>
  After a run of \<open>CheckInputs\<close> that succeeds, a second run under any flags ends without a
  fault and pushes no check.
\<close>

lemma CheckInputs_second_pass:
  assumes first: "CheckInputs c ops sc chain tx state inputs True flags cacheStore False
                    = Inr ((True, state), [])"
  shows "\<exists>b state2. CheckInputs c ops sc chain tx state inputs True flags2 cacheStore False
                       = Inr ((b, state2), [])"
proof (cases "IsCoinBase ops tx")
  case True
  then show ?thesis by (auto simp: CheckInputs_def)
next
  case False
  with CheckInputs_True [OF first] obtain h where
    h: "GetSpendHeight chain = Inr h"
    and cti: "CheckTxInputs c ops chain tx state inputs (scast h) = Inr (True, state)"
    and all: "\<forall>j. j < length (vin tx) \<longrightarrow>
                 (\<exists>coin. inputs (prevout (vin tx ! j)) = Some coin
                    \<and> VerifyScript sc (scriptSig (vin tx ! j)) (scriptPubKey (out coin))
                         flags tx j cacheStore = None)"
    by blast
  from all have "\<forall>j. 0 \<le> j \<and> j < length (vin tx) \<longrightarrow> inputs (prevout (vin tx ! j)) \<noteq> None"
    by auto
  then obtain fl where
    loop: "CheckInputs_loop c sc tx state inputs flags2 cacheStore False 0 [] = Inr fl"
    using CheckInputs_loop_total [of False 0 tx inputs c sc state flags2 cacheStore "[]"]
    by auto
  show ?thesis
  proof (cases fl)
    case (Return r)
    with False h cti loop show ?thesis
      by (cases r) (simp add: CheckInputs_def)
  next
    case (Next pushed)
    with loop have "pushed = []"
      using CheckInputs_loop_Next [of False c sc tx state inputs flags2 cacheStore 0 "[]" pushed]
      by simp
    with False h cti loop Next show ?thesis
      by (auto simp: CheckInputs_def)
  qed
qed

section \<open>Properties of \<open>AcceptToMemoryPoolWorker\<close> and \<open>AcceptToMemoryPool\<close>\<close>

lemma AcceptToMemoryPoolWorker_exist_result:
  "AcceptToMemoryPoolWorker_exist env ins (missing, uncache, tr) =
     (missing \<or> (\<exists>txin \<in> set ins.
                    CCoinsViewMemPool (pcoinsTip env) (pool_outputs env) (prevout txin) = None),
      uncache @ map prevout (filter (\<lambda>txin. \<not> HaveCoinInCache env (prevout txin)) ins),
      tr @ map (\<lambda>txin. ViewHaveCoin (prevout txin)) ins)"
  by (induction ins arbitrary: missing uncache tr) auto

lemma AcceptToMemoryPoolWorker_early_passes:
  assumes "CheckTransaction ops tx = None"
      and "\<not> IsCoinBase ops tx" and "\<not> IsCoinStake ops tx"
      and "fRequireStandard env \<longrightarrow> IsStandardTx env tx = None"
      and "CheckFinalTx c cops chain (GetAdjustedTime env) tx (STANDARD_LOCKTIME_VERIFY_FLAGS c)
             = Inr True"
      and "\<not> pool_exists env (GetHash ops tx)"
      and "\<forall>txin \<in> set (vin tx). \<not> mapNextTx_find env (prevout txin)"
  shows "AcceptToMemoryPoolWorker_early c ops cops chain env state tx = Inr None"
  using assms by (simp add: AcceptToMemoryPoolWorker_early_def list_ex_iff)

lemma AcceptToMemoryPoolWorker_early_False:
  "AcceptToMemoryPoolWorker_early c ops cops chain env state tx = Inr (Some r) \<Longrightarrow> \<not> fst r"
  by (auto simp: AcceptToMemoryPoolWorker_early_def DoS_False Invalid_False
      split: option.splits if_splits sum.splits bool.splits)


lemma AcceptToMemoryPoolWorker_limiter_False:
  "AcceptToMemoryPoolWorker_limiter env state tx fLimitFree fRejectAbsurdFee nFees nModifiedFees
     nSize tr0 = Return (r, tr) \<Longrightarrow> \<not> fst r"
  unfolding AcceptToMemoryPoolWorker_limiter_def Let_def
  by (auto simp: DoS_False Invalid_False split: if_splits)

lemma AcceptToMemoryPoolWorker_limiter_effects:
  "AcceptToMemoryPoolWorker_limiter env state tx fLimitFree fRejectAbsurdFee nFees nModifiedFees
     nSize tr0 = Next tr \<Longrightarrow> PoolAddUnchecked h \<notin> set tr0 \<Longrightarrow> PoolAddUnchecked h \<notin> set tr"
  unfolding AcceptToMemoryPoolWorker_limiter_def Let_def
  by (auto split: if_splits)

lemma AcceptToMemoryPoolWorker_fees_False:
  "AcceptToMemoryPoolWorker_fees c ops env state tx fLimitFree fRejectAbsurdFee nValueIn tr0
     = Return (r, tr) \<Longrightarrow> \<not> fst r"
  unfolding AcceptToMemoryPoolWorker_fees_def Let_def
  by (auto simp: DoS_False dest: AcceptToMemoryPoolWorker_limiter_False split: if_splits)

lemma AcceptToMemoryPoolWorker_fees_effects:
  "AcceptToMemoryPoolWorker_fees c ops env state tx fLimitFree fRejectAbsurdFee nValueIn tr0
     = Next tr \<Longrightarrow> PoolAddUnchecked h \<notin> set tr0 \<Longrightarrow> PoolAddUnchecked h \<notin> set tr"
  unfolding AcceptToMemoryPoolWorker_fees_def Let_def
  by (auto dest: AcceptToMemoryPoolWorker_limiter_effects split: if_splits)

lemma CheckSequenceLocks_effects:
  "CheckSequenceLocks c cops chain view tx flags lp useExistingLockPoints = Inr (ok, lp1, tr)
     \<Longrightarrow> PoolAddUnchecked h \<notin> set tr"
  unfolding CheckSequenceLocks_def Let_def
  by (auto split: option.splits if_splits sum.splits prod.splits)

lemma AcceptToMemoryPoolWorker_policy_False:
  "AcceptToMemoryPoolWorker_policy c ops cops chain env state tx fLimitFree fRejectAbsurdFee
     = Inr (Return (r, tr)) \<Longrightarrow> \<not> fst r"
  unfolding AcceptToMemoryPoolWorker_policy_def Let_def
  by (auto simp: DoS_False Invalid_False dest: AcceptToMemoryPoolWorker_fees_False
      split: sum.splits if_splits bool.splits prod.splits)

lemma AcceptToMemoryPoolWorker_policy_effects:
  "AcceptToMemoryPoolWorker_policy c ops cops chain env state tx fLimitFree fRejectAbsurdFee
     = Inr (Next tr) \<Longrightarrow> PoolAddUnchecked h \<notin> set tr"
  unfolding AcceptToMemoryPoolWorker_policy_def Let_def
  by (auto dest!: AcceptToMemoryPoolWorker_fees_effects dest: CheckSequenceLocks_effects
      split: sum.splits if_splits bool.splits prod.splits)

lemma AcceptToMemoryPoolWorker_exist_effects:
  "PoolAddUnchecked h
     \<notin> set (snd (snd (AcceptToMemoryPoolWorker_exist env ins (False, [], []))))"
  by (auto simp: AcceptToMemoryPoolWorker_exist_result)


lemma AcceptToMemoryPoolWorker_scripts_True:
  assumes "AcceptToMemoryPoolWorker_scripts c ops sc chain env state tx fOverrideMempoolLimit
             = Inr ((True, state1), tr)"
  shows "CheckInputs c ops sc chain tx state (worker_view env tx) True
           (STANDARD_SCRIPT_VERIFY_FLAGS c) True False = Inr ((True, state), [])
         \<and> CheckInputs c ops sc chain tx state (worker_view env tx) True
             (MANDATORY_SCRIPT_VERIFY_FLAGS c) True False = Inr ((True, state), [])"
proof -
  let ?std = "CheckInputs c ops sc chain tx state (worker_view env tx) True
                (STANDARD_SCRIPT_VERIFY_FLAGS c) True False"
  from assms obtain b s1 p1 where std: "?std = Inr ((b, s1), p1)"
    by (cases ?std) (auto simp: AcceptToMemoryPoolWorker_scripts_def)
  from assms std have b: "b"
    by (cases b) (simp_all add: AcceptToMemoryPoolWorker_scripts_def)
  with std CheckInputs_True [of c ops sc chain tx state "worker_view env tx" _ True s1 p1]
  have s1: "s1 = state" "p1 = []"
    by simp_all
  let ?mand = "CheckInputs c ops sc chain tx state (worker_view env tx) True
                 (MANDATORY_SCRIPT_VERIFY_FLAGS c) True False"
  from assms std b s1 obtain b2 s2 p2 where mand: "?mand = Inr ((b2, s2), p2)"
    by (cases ?mand) (auto simp: AcceptToMemoryPoolWorker_scripts_def)
  from assms std b s1 mand have b2: "b2"
    by (cases b2) (simp_all add: AcceptToMemoryPoolWorker_scripts_def)
  with mand CheckInputs_True [of c ops sc chain tx state "worker_view env tx" _ True s2 p2]
  have "s2 = state" "p2 = []"
    by simp_all
  with std b s1 mand b2 show ?thesis
    by simp
qed

lemma AcceptToMemoryPoolWorker_True:
  assumes "AcceptToMemoryPoolWorker c ops cops sc chain env state tx fLimitFree pfMissingInputs
             fOverrideMempoolLimit fRejectAbsurdFee = Inr ((True, state1), missing, uncache, tr)"
  shows "\<exists>tr2. AcceptToMemoryPoolWorker_scripts c ops sc chain env state tx
                  fOverrideMempoolLimit = Inr ((True, state1), tr2)"
proof -
  let ?early = "AcceptToMemoryPoolWorker_early c ops cops chain env state tx"
  from assms obtain e where e: "?early = Inr e"
    by (cases ?early) (simp_all add: AcceptToMemoryPoolWorker_def)
  have none: "e = None"
  proof (cases e)
    case None
    then show ?thesis .
  next
    case (Some r)
    with e have "\<not> fst r"
      using AcceptToMemoryPoolWorker_early_False by blast
    with assms e Some show ?thesis
      by (cases r) (simp add: AcceptToMemoryPoolWorker_def)
  qed
  obtain m u t where ex:
    "(if pfMissingInputs \<noteq> None
      then AcceptToMemoryPoolWorker_exist env (vin tx) (False, [], [])
      else (False, [], [])) = (m, u, t)"
    using prod_cases3 by blast
  from assms e none ex have m: "\<not> m"
    by (cases m) (simp_all add: AcceptToMemoryPoolWorker_def)
  let ?policy = "AcceptToMemoryPoolWorker_policy c ops cops chain env state tx fLimitFree
                   fRejectAbsurdFee"
  from assms e none ex m obtain fl where fl: "?policy = Inr fl"
    by (cases ?policy) (simp_all add: AcceptToMemoryPoolWorker_def)
  have "\<exists>tr1. fl = Next tr1"
  proof (cases fl)
    case (Return rt)
    obtain r t1 where rt: "rt = (r, t1)" by (cases rt)
    with fl Return have "\<not> fst r"
      using AcceptToMemoryPoolWorker_policy_False by blast
    with assms e none ex m fl Return rt show ?thesis
      by (cases r) (simp add: AcceptToMemoryPoolWorker_def)
  next
    case (Next tr1)
    then show ?thesis by simp
  qed
  then obtain tr1 where tr1: "fl = Next tr1" ..
  let ?scripts = "AcceptToMemoryPoolWorker_scripts c ops sc chain env state tx
                    fOverrideMempoolLimit"
  from assms e none ex m fl tr1 obtain r tr2 where sc: "?scripts = Inr (r, tr2)"
    by (cases ?scripts) (auto simp: AcceptToMemoryPoolWorker_def)
  with assms e none ex m fl tr1 have "r = (True, state1)"
    by (simp add: AcceptToMemoryPoolWorker_def)
  with sc show ?thesis by blast
qed

lemma AcceptToMemoryPoolWorker_divergence:
  assumes reach: "reaches_script_checks c ops cops chain env state tx fLimitFree
                    pfMissingInputs fRejectAbsurdFee"
    and std: "CheckInputs c ops sc chain tx state (worker_view env tx) True
                (STANDARD_SCRIPT_VERIFY_FLAGS c) True False = Inr ((True, state), [])"
    and mand: "CheckInputs c ops sc chain tx state (worker_view env tx) True
                 (MANDATORY_SCRIPT_VERIFY_FLAGS c) True False \<noteq> Inr ((True, state), [])"
  shows "\<exists>state2 missing uncache tr.
           CheckInputs c ops sc chain tx state (worker_view env tx) True
             (MANDATORY_SCRIPT_VERIFY_FLAGS c) True False = Inr ((False, state2), [])
           \<and> AcceptToMemoryPoolWorker c ops cops sc chain env state tx fLimitFree
               pfMissingInputs fOverrideMempoolLimit fRejectAbsurdFee
             = Inr ((False, state2), missing, uncache, tr @ [Log bug_message])
           \<and> (\<forall>h. PoolAddUnchecked h \<notin> set tr)"
proof -
  from CheckInputs_second_pass [OF std, of "MANDATORY_SCRIPT_VERIFY_FLAGS c"]
  obtain b state2 where
    second: "CheckInputs c ops sc chain tx state (worker_view env tx) True
               (MANDATORY_SCRIPT_VERIFY_FLAGS c) True False = Inr ((b, state2), [])"
    by blast
  have b: "\<not> b"
  proof
    assume b
    with second CheckInputs_True [of c ops sc chain tx state "worker_view env tx" _ True
        state2 "[]"]
    have "state2 = state" by simp
    with second \<open>b\<close> mand show False by simp
  qed
  from second b
  have failed: "CheckInputs c ops sc chain tx state (worker_view env tx) True
                  (MANDATORY_SCRIPT_VERIFY_FLAGS c) True False = Inr ((False, state2), [])"
    by simp
  from std second b
  have scripts: "AcceptToMemoryPoolWorker_scripts c ops sc chain env state tx
                   fOverrideMempoolLimit = Inr ((False, state2), [Log bug_message])"
    by (simp add: AcceptToMemoryPoolWorker_scripts_def)
  from reach have early: "AcceptToMemoryPoolWorker_early c ops cops chain env state tx = Inr None"
    and ex: "pfMissingInputs = None
             \<or> \<not> fst (AcceptToMemoryPoolWorker_exist env (vin tx) (False, [], []))"
    by (simp_all add: reaches_script_checks_def)
  from reach obtain tr1 where
    policy: "AcceptToMemoryPoolWorker_policy c ops cops chain env state tx fLimitFree
               fRejectAbsurdFee = Inr (Next tr1)"
    by (auto simp: reaches_script_checks_def split: sum.splits flow.splits)
  have tr1: "\<forall>h. PoolAddUnchecked h \<notin> set tr1"
    using AcceptToMemoryPoolWorker_policy_effects [OF policy] by blast
  show ?thesis
  proof (cases pfMissingInputs)
    case None
    with early policy scripts
    have "AcceptToMemoryPoolWorker c ops cops sc chain env state tx fLimitFree pfMissingInputs
             fOverrideMempoolLimit fRejectAbsurdFee
           = Inr ((False, state2), None, [], tr1 @ [Log bug_message])"
      by (simp add: AcceptToMemoryPoolWorker_def)
    with tr1 failed show ?thesis by blast
  next
    case (Some v)
    obtain m u t where res: "AcceptToMemoryPoolWorker_exist env (vin tx) (False, [], []) = (m, u, t)"
      using prod_cases3 by blast
    with ex Some have m: "\<not> m" by simp
    from res have t: "\<forall>h. PoolAddUnchecked h \<notin> set t"
      using AcceptToMemoryPoolWorker_exist_effects [of _ env "vin tx"] by simp
    from Some early policy scripts res m
    have "AcceptToMemoryPoolWorker c ops cops sc chain env state tx fLimitFree pfMissingInputs
             fOverrideMempoolLimit fRejectAbsurdFee
           = Inr ((False, state2), Some False, u, (t @ tr1) @ [Log bug_message])"
      by (simp add: AcceptToMemoryPoolWorker_def)
    moreover from t tr1 have "\<forall>h. PoolAddUnchecked h \<notin> set (t @ tr1)"
      by simp
    ultimately show ?thesis using failed by blast
  qed
qed

text \<open>
  Claim C6, as amended.  Take a structurally valid transaction, neither coinbase nor
  coinstake, with an input whose coin is neither in the UTXO view nor among the in-pool
  outputs.  If it also passes the standardness test (where standardness is required), is
  final for the next block, is not yet in the pool and spends no outpoint that an in-pool
  transaction spends, and the caller passes \<open>pfMissingInputs\<close>, then \<open>AcceptToMemoryPool\<close>
  returns false with \<open>*pfMissingInputs = true\<close> and leaves the validation state as it was.
  The pool is not touched, and the only calls on the UTXO view are the \<open>HaveCoin\<close> lookups
  of the inputs: no coin is uncached.
\<close>

theorem AcceptToMemoryPool_missing_inputs:
  assumes "orphan_transaction ops env tx"
      and "fRequireStandard env \<longrightarrow> IsStandardTx env tx = None"
      and "CheckFinalTx c cops chain (GetAdjustedTime env) tx (STANDARD_LOCKTIME_VERIFY_FLAGS c)
             = Inr True"
      and "\<not> pool_exists env (GetHash ops tx)"
      and "\<forall>txin \<in> set (vin tx). \<not> mapNextTx_find env (prevout txin)"
  shows "AcceptToMemoryPool c ops cops sc chain env state tx fLimitFree (Some b)
           fOverrideMempoolLimit fRejectAbsurdFee
         = Inr ((False, state), Some True, map (\<lambda>txin. ViewHaveCoin (prevout txin)) (vin tx))"
proof -
  from assms(1) have valid: "CheckTransaction ops tx = None"
    "\<not> IsCoinBase ops tx" "\<not> IsCoinStake ops tx"
    by (simp_all add: orphan_transaction_def)
  have early: "AcceptToMemoryPoolWorker_early c ops cops chain env state tx = Inr None"
    using valid assms(2-5) by (rule AcceptToMemoryPoolWorker_early_passes)
  from assms(1) obtain txin where mem: "txin \<in> set (vin tx)"
    and "pcoinsTip env (prevout txin) = None" and "pool_outputs env (prevout txin) = None"
    by (auto simp: orphan_transaction_def list_ex_iff)
  then have "CCoinsViewMemPool (pcoinsTip env) (pool_outputs env) (prevout txin) = None"
    by (simp add: CCoinsViewMemPool_def)
  with mem have "\<exists>txin \<in> set (vin tx).
          CCoinsViewMemPool (pcoinsTip env) (pool_outputs env) (prevout txin) = None"
    by blast
  then have exist: "AcceptToMemoryPoolWorker_exist env (vin tx) (False, [], [])
      = (True, map prevout (filter (\<lambda>txin. \<not> HaveCoinInCache env (prevout txin)) (vin tx)),
         map (\<lambda>txin. ViewHaveCoin (prevout txin)) (vin tx))"
    by (simp add: AcceptToMemoryPoolWorker_exist_result)
  have "AcceptToMemoryPoolWorker c ops cops sc chain env state tx fLimitFree (Some b)
           fOverrideMempoolLimit fRejectAbsurdFee
        = Inr ((False, state), Some True,
               map prevout (filter (\<lambda>txin. \<not> HaveCoinInCache env (prevout txin)) (vin tx)),
               map (\<lambda>txin. ViewHaveCoin (prevout txin)) (vin tx))"
    by (simp add: AcceptToMemoryPoolWorker_def early exist)
  then show ?thesis
    by (simp add: AcceptToMemoryPool_def)
qed

lemmas example_mempool_defs =
  example_mempool_env_def example_orphan_txin_def example_tx_def example_txin_def
  example_tx_ops_def example_consts_def example_chain_state_def example_ops_def
  example_view_def example_coin_def

lemma example_final:
  "CheckFinalTx example_consts example_ops (example_chain_state 2) 6000
     (example_tx 1 0 [example_txin 0, example_orphan_txin 0]) 3 = Inr True"
  by (simp add: CheckFinalTx_def IsFinalTx_def Height_def smax_def example_mempool_defs
      word_sless_alt word_sle_eq)

theorem AcceptToMemoryPool_missing_inputs_witness:
  "AcceptToMemoryPool example_consts example_tx_ops example_ops example_script_ops
     (example_chain_state 2) example_mempool_env example_state
     (example_tx 1 0 [example_txin 0, example_orphan_txin 0]) True (Some False) False True
   = Inr ((False, example_state), Some True,
          [ViewHaveCoin \<lparr> hash = 7, n = 0 \<rparr>, ViewHaveCoin \<lparr> hash = 9, n = 0 \<rparr>])"
proof -
  let ?tx = "example_tx 1 0 [example_txin 0, example_orphan_txin 0]"
  have final: "CheckFinalTx example_consts example_ops (example_chain_state 2)
                 (GetAdjustedTime example_mempool_env) ?tx
                 (STANDARD_LOCKTIME_VERIFY_FLAGS example_consts) = Inr True"
    using example_final by (simp add: example_mempool_env_def example_consts_def)
  have hyps: "orphan_transaction example_tx_ops example_mempool_env ?tx"
    "fRequireStandard example_mempool_env \<longrightarrow> IsStandardTx example_mempool_env ?tx = None"
    "\<not> pool_exists example_mempool_env (GetHash example_tx_ops ?tx)"
    "\<forall>txin \<in> set (vin ?tx). \<not> mapNextTx_find example_mempool_env (prevout txin)"
    by (simp_all add: orphan_transaction_def example_mempool_defs)
  from AcceptToMemoryPool_missing_inputs [of example_tx_ops example_mempool_env ?tx
      example_consts example_ops "example_chain_state 2" example_script_ops example_state True
      False False True, OF hyps(1,2) final hyps(3,4)]
  show ?thesis
    by (simp add: example_tx_def example_txin_def example_orphan_txin_def)
qed

text \<open>
  Runs in which a transaction of the scenario is refused by an earlier test, or in which
  the caller passes no \<open>pfMissingInputs\<close>: the state is marked invalid and no missing input
  is reported.
\<close>

lemma example_orphans:
  "orphan_transaction example_tx_ops example_mempool_env (example_tx ver lock [example_orphan_txin s])"
  "orphan_transaction example_tx_ops example_mempool_env
     (example_tx ver lock [example_txin s\<lparr> prevout := \<lparr> hash = 8, n = 0 \<rparr> \<rparr>,
                           example_orphan_txin s])"
  by (simp_all add: orphan_transaction_def example_mempool_defs)

lemmas example_refusal_defs =
  AcceptToMemoryPool_def AcceptToMemoryPoolWorker_def AcceptToMemoryPoolWorker_early_def
  CheckFinalTx_def IsFinalTx_def Height_def smax_def example_mempool_defs Let_def
  word_sless_alt word_sle_eq case_prod_unfold

lemma example_non_final:
  "AcceptToMemoryPool example_consts example_tx_ops example_ops example_script_ops
     (example_chain_state 2) example_mempool_env example_state
     (example_tx 1 10 [example_orphan_txin 0]) True (Some False) False True
   = Inr (DoS 0 False REJECT_NONSTANDARD ''non-final'' False example_state, Some False, [])"
  by (simp add: example_refusal_defs)

lemma example_nonstandard:
  "AcceptToMemoryPool example_consts example_tx_ops example_ops example_script_ops
     (example_chain_state 2) example_mempool_env example_state
     (example_tx 4 0 [example_orphan_txin 0]) True (Some False) False True
   = Inr (DoS 0 False REJECT_NONSTANDARD ''version'' False example_state, Some False, [])"
  by (simp add: example_refusal_defs)

lemma example_already_known:
  "AcceptToMemoryPool example_consts example_tx_ops example_ops example_script_ops
     (example_chain_state 2) example_mempool_env example_state
     (example_tx 1 999 [example_orphan_txin 0xffffffff]) True (Some False) False True
   = Inr (Invalid False REJECT_ALREADY_KNOWN ''txn-already-in-mempool'' example_state,
          Some False, [])"
  by (simp add: example_refusal_defs)

lemma example_conflict:
  "AcceptToMemoryPool example_consts example_tx_ops example_ops example_script_ops
     (example_chain_state 2) example_mempool_env example_state
     (example_tx 1 0 [example_txin 0\<lparr> prevout := \<lparr> hash = 8, n = 0 \<rparr> \<rparr>,
                      example_orphan_txin 0]) True (Some False) False True
   = Inr (Invalid False REJECT_CONFLICT ''txn-mempool-conflict'' example_state, Some False, [])"
  by (simp add: example_refusal_defs)

lemma example_null_pointer:
  "AcceptToMemoryPool example_consts example_tx_ops example_ops example_script_ops
     (example_chain_state 2) example_mempool_env example_state
     (example_tx 1 0 [example_orphan_txin 0]) True None False True
   = Inr (DoS 0 False REJECT_NONSTANDARD ''non-BIP68-final'' False example_state, None,
          [ViewGetValueIn 1, Log ''CheckSequenceLocks: Missing input''])"
  by (simp add: example_refusal_defs AcceptToMemoryPoolWorker_policy_def CheckSequenceLocks_def
      CCoinsViewMemPool_def)

theorem AcceptToMemoryPool_earlier_refusal_counterexample:
  "orphan_transaction example_tx_ops example_mempool_env (example_tx 1 10 [example_orphan_txin 0])
   \<and> AcceptToMemoryPool example_consts example_tx_ops example_ops example_script_ops
       (example_chain_state 2) example_mempool_env example_state
       (example_tx 1 10 [example_orphan_txin 0]) True (Some False) False True
     = Inr (DoS 0 False REJECT_NONSTANDARD ''non-final'' False example_state, Some False, [])
   \<and> orphan_transaction example_tx_ops example_mempool_env (example_tx 4 0 [example_orphan_txin 0])
   \<and> AcceptToMemoryPool example_consts example_tx_ops example_ops example_script_ops
       (example_chain_state 2) example_mempool_env example_state
       (example_tx 4 0 [example_orphan_txin 0]) True (Some False) False True
     = Inr (DoS 0 False REJECT_NONSTANDARD ''version'' False example_state, Some False, [])
   \<and> orphan_transaction example_tx_ops example_mempool_env
       (example_tx 1 999 [example_orphan_txin 0xffffffff])
   \<and> AcceptToMemoryPool example_consts example_tx_ops example_ops example_script_ops
       (example_chain_state 2) example_mempool_env example_state
       (example_tx 1 999 [example_orphan_txin 0xffffffff]) True (Some False) False True
     = Inr (Invalid False REJECT_ALREADY_KNOWN ''txn-already-in-mempool'' example_state,
            Some False, [])
   \<and> orphan_transaction example_tx_ops example_mempool_env
       (example_tx 1 0 [example_txin 0\<lparr> prevout := \<lparr> hash = 8, n = 0 \<rparr> \<rparr>,
                        example_orphan_txin 0])
   \<and> AcceptToMemoryPool example_consts example_tx_ops example_ops example_script_ops
       (example_chain_state 2) example_mempool_env example_state
       (example_tx 1 0 [example_txin 0\<lparr> prevout := \<lparr> hash = 8, n = 0 \<rparr> \<rparr>,
                        example_orphan_txin 0]) True (Some False) False True
     = Inr (Invalid False REJECT_CONFLICT ''txn-mempool-conflict'' example_state, Some False, [])
   \<and> orphan_transaction example_tx_ops example_mempool_env (example_tx 1 0 [example_orphan_txin 0])
   \<and> AcceptToMemoryPool example_consts example_tx_ops example_ops example_script_ops
       (example_chain_state 2) example_mempool_env example_state
       (example_tx 1 0 [example_orphan_txin 0]) True None False True
     = Inr (DoS 0 False REJECT_NONSTANDARD ''non-BIP68-final'' False example_state, None,
            [ViewGetValueIn 1, Log ''CheckSequenceLocks: Missing input''])
   \<and> IsInvalid (snd (DoS 0 False REJECT_NONSTANDARD ''non-final'' False example_state))
   \<and> IsInvalid (snd (DoS 0 False REJECT_NONSTANDARD ''version'' False example_state))
   \<and> IsInvalid (snd (Invalid False REJECT_ALREADY_KNOWN ''txn-already-in-mempool''
                        example_state))
   \<and> IsInvalid (snd (Invalid False REJECT_CONFLICT ''txn-mempool-conflict'' example_state))
   \<and> IsInvalid (snd (DoS 0 False REJECT_NONSTANDARD ''non-BIP68-final'' False example_state))"
  by (simp add: example_orphans example_non_final example_nonstandard example_already_known
      example_conflict example_null_pointer)
     (simp add: DoS_def Invalid_def IsInvalid_def Let_def example_state_def)

text \<open>Where the run stands when it comes to the script checks.\<close>

lemma AcceptToMemoryPoolWorker_at_scripts:
  assumes "reaches_script_checks c ops cops chain env state tx fLimitFree pfMissingInputs
             fRejectAbsurdFee"
  shows "\<exists>missing uncache tr.
           (\<forall>h. PoolAddUnchecked h \<notin> set tr)
           \<and> AcceptToMemoryPoolWorker c ops cops sc chain env state tx fLimitFree pfMissingInputs
               fOverrideMempoolLimit fRejectAbsurdFee
             = (case AcceptToMemoryPoolWorker_scripts c ops sc chain env state tx
                       fOverrideMempoolLimit of
                  Inl f \<Rightarrow> Inl f
                | Inr (r, tr2) \<Rightarrow> Inr (r, missing, uncache, tr @ tr2))"
proof -
  from assms have early: "AcceptToMemoryPoolWorker_early c ops cops chain env state tx = Inr None"
    and ex: "pfMissingInputs = None
             \<or> \<not> fst (AcceptToMemoryPoolWorker_exist env (vin tx) (False, [], []))"
    by (simp_all add: reaches_script_checks_def)
  from assms obtain tr1 where
    policy: "AcceptToMemoryPoolWorker_policy c ops cops chain env state tx fLimitFree
               fRejectAbsurdFee = Inr (Next tr1)"
    by (auto simp: reaches_script_checks_def split: sum.splits flow.splits)
  have tr1: "\<forall>h. PoolAddUnchecked h \<notin> set tr1"
    using AcceptToMemoryPoolWorker_policy_effects [OF policy] by blast
  let ?scripts = "AcceptToMemoryPoolWorker_scripts c ops sc chain env state tx
                    fOverrideMempoolLimit"
  show ?thesis
  proof (cases pfMissingInputs)
    case None
    with early policy
    have "AcceptToMemoryPoolWorker c ops cops sc chain env state tx fLimitFree pfMissingInputs
             fOverrideMempoolLimit fRejectAbsurdFee
           = (case ?scripts of Inl f \<Rightarrow> Inl f | Inr (r, tr2) \<Rightarrow> Inr (r, None, [], tr1 @ tr2))"
      by (simp add: AcceptToMemoryPoolWorker_def split: sum.splits)
    with tr1 show ?thesis by blast
  next
    case (Some v)
    obtain m u t where res: "AcceptToMemoryPoolWorker_exist env (vin tx) (False, [], []) = (m, u, t)"
      using prod_cases3 by blast
    with ex Some have m: "\<not> m" by simp
    from res have t: "\<forall>h. PoolAddUnchecked h \<notin> set t"
      using AcceptToMemoryPoolWorker_exist_effects [of _ env "vin tx"] by simp
    from Some early policy res m
    have "AcceptToMemoryPoolWorker c ops cops sc chain env state tx fLimitFree pfMissingInputs
             fOverrideMempoolLimit fRejectAbsurdFee
           = (case ?scripts of Inl f \<Rightarrow> Inl f
              | Inr (r, tr2) \<Rightarrow> Inr (r, Some False, u, (t @ tr1) @ tr2))"
      by (simp add: AcceptToMemoryPoolWorker_def split: sum.splits)
    moreover from t tr1 have "\<forall>h. PoolAddUnchecked h \<notin> set (t @ tr1)"
      by simp
    ultimately show ?thesis by blast
  qed
qed

lemma AcceptToMemoryPoolWorker_first_pass_fails:
  assumes reach: "reaches_script_checks c ops cops chain env state tx fLimitFree
                    pfMissingInputs fRejectAbsurdFee"
    and std: "CheckInputs c ops sc chain tx state (worker_view env tx) True
                (STANDARD_SCRIPT_VERIFY_FLAGS c) True False = Inr ((False, state1), pushed)"
  shows "\<exists>missing uncache tr.
           AcceptToMemoryPoolWorker c ops cops sc chain env state tx fLimitFree pfMissingInputs
             fOverrideMempoolLimit fRejectAbsurdFee
           = Inr ((False, state1), missing, uncache, tr @ [Log ''CheckInputs failed for tx''])
           \<and> (\<forall>h. PoolAddUnchecked h \<notin> set tr)"
proof -
  from std
  have "AcceptToMemoryPoolWorker_scripts c ops sc chain env state tx fOverrideMempoolLimit
          = Inr ((False, state1), [Log ''CheckInputs failed for tx''])"
    by (simp add: AcceptToMemoryPoolWorker_scripts_def)
  with AcceptToMemoryPoolWorker_at_scripts [OF reach, of sc fOverrideMempoolLimit]
  show ?thesis by auto
qed

lemma AcceptToMemoryPoolWorker_both_pass:
  assumes reach: "reaches_script_checks c ops cops chain env state tx fLimitFree
                    pfMissingInputs fRejectAbsurdFee"
    and std: "CheckInputs c ops sc chain tx state (worker_view env tx) True
                (STANDARD_SCRIPT_VERIFY_FLAGS c) True False = Inr ((True, state), [])"
    and mand: "CheckInputs c ops sc chain tx state (worker_view env tx) True
                 (MANDATORY_SCRIPT_VERIFY_FLAGS c) True False = Inr ((True, state), [])"
    and anc: "CalculateMemPoolAncestors env = None"
    and room: "fOverrideMempoolLimit \<or> pool_exists_after_trim env"
  shows "\<exists>missing uncache tr.
           AcceptToMemoryPoolWorker c ops cops sc chain env state tx fLimitFree pfMissingInputs
             fOverrideMempoolLimit fRejectAbsurdFee
           = Inr ((True, state), missing, uncache,
                  tr @ [TransactionAddedToMempool (GetHash ops tx)])
           \<and> PoolAddUnchecked (GetHash ops tx) \<in> set tr"
proof -
  from anc room obtain tr2 where
    ins: "AcceptToMemoryPoolWorker_insert ops env state tx fOverrideMempoolLimit
            = ((True, state), PoolAddUnchecked (GetHash ops tx) # tr2
                              @ [TransactionAddedToMempool (GetHash ops tx)])"
    by (cases fOverrideMempoolLimit) (auto simp: AcceptToMemoryPoolWorker_insert_def Let_def)
  with std mand
  have "AcceptToMemoryPoolWorker_scripts c ops sc chain env state tx fOverrideMempoolLimit
          = Inr ((True, state), PoolAddUnchecked (GetHash ops tx) # tr2
                                @ [TransactionAddedToMempool (GetHash ops tx)])"
    by (simp add: AcceptToMemoryPoolWorker_scripts_def)
  with AcceptToMemoryPoolWorker_at_scripts [OF reach, of sc fOverrideMempoolLimit]
  obtain missing uncache tr where
    "AcceptToMemoryPoolWorker c ops cops sc chain env state tx fLimitFree pfMissingInputs
       fOverrideMempoolLimit fRejectAbsurdFee
     = Inr ((True, state), missing, uncache,
            (tr @ PoolAddUnchecked (GetHash ops tx) # tr2)
            @ [TransactionAddedToMempool (GetHash ops tx)])"
    by auto
  moreover have "PoolAddUnchecked (GetHash ops tx)
                   \<in> set (tr @ PoolAddUnchecked (GetHash ops tx) # tr2)"
    by simp
  ultimately show ?thesis by blast
qed

text \<open>
  Claim C5, as amended.  \<open>AcceptToMemoryPoolWorker\<close> verifies the scripts twice, under
  \<open>STANDARD_SCRIPT_VERIFY_FLAGS\<close> and then under \<open>MANDATORY_SCRIPT_VERIFY_FLAGS\<close>, and accepts
  a transaction only if both passes succeed.  For a run that comes to the script checks:
  when both passes succeed and the pool has room, the transaction is added to the pool and
  the worker returns true; when the first pass fails, the worker logs it and returns
  false with the state of that pass; when the first pass succeeds and the second does not,
  the second ends without a fault, and the worker logs the bug message and returns false
  with the state of the second pass.  In neither refusal is the transaction added to the
  pool.
\<close>

theorem AcceptToMemoryPoolWorker_two_pass_scripts:
  "(AcceptToMemoryPoolWorker c ops cops sc chain env state tx fLimitFree pfMissingInputs
      fOverrideMempoolLimit fRejectAbsurdFee = Inr ((True, state1), missing, uncache, tr)
    \<longrightarrow> CheckInputs c ops sc chain tx state (worker_view env tx) True
           (STANDARD_SCRIPT_VERIFY_FLAGS c) True False = Inr ((True, state), [])
        \<and> CheckInputs c ops sc chain tx state (worker_view env tx) True
            (MANDATORY_SCRIPT_VERIFY_FLAGS c) True False = Inr ((True, state), []))
   \<and> (reaches_script_checks c ops cops chain env state tx fLimitFree pfMissingInputs
        fRejectAbsurdFee
      \<and> CheckInputs c ops sc chain tx state (worker_view env tx) True
          (STANDARD_SCRIPT_VERIFY_FLAGS c) True False = Inr ((True, state), [])
      \<and> CheckInputs c ops sc chain tx state (worker_view env tx) True
          (MANDATORY_SCRIPT_VERIFY_FLAGS c) True False = Inr ((True, state), [])
      \<and> CalculateMemPoolAncestors env = None
      \<and> (fOverrideMempoolLimit \<or> pool_exists_after_trim env)
    \<longrightarrow> (\<exists>missing2 uncache2 tr2.
           AcceptToMemoryPoolWorker c ops cops sc chain env state tx fLimitFree pfMissingInputs
             fOverrideMempoolLimit fRejectAbsurdFee
           = Inr ((True, state), missing2, uncache2,
                  tr2 @ [TransactionAddedToMempool (GetHash ops tx)])
           \<and> PoolAddUnchecked (GetHash ops tx) \<in> set tr2))
   \<and> (reaches_script_checks c ops cops chain env state tx fLimitFree pfMissingInputs
        fRejectAbsurdFee
      \<and> CheckInputs c ops sc chain tx state (worker_view env tx) True
          (STANDARD_SCRIPT_VERIFY_FLAGS c) True False = Inr ((False, state3), pushed)
    \<longrightarrow> (\<exists>missing2 uncache2 tr2.
           AcceptToMemoryPoolWorker c ops cops sc chain env state tx fLimitFree pfMissingInputs
             fOverrideMempoolLimit fRejectAbsurdFee
           = Inr ((False, state3), missing2, uncache2, tr2 @ [Log ''CheckInputs failed for tx''])
           \<and> (\<forall>h. PoolAddUnchecked h \<notin> set tr2)))
   \<and> (reaches_script_checks c ops cops chain env state tx fLimitFree pfMissingInputs
        fRejectAbsurdFee
      \<and> CheckInputs c ops sc chain tx state (worker_view env tx) True
          (STANDARD_SCRIPT_VERIFY_FLAGS c) True False = Inr ((True, state), [])
      \<and> CheckInputs c ops sc chain tx state (worker_view env tx) True
          (MANDATORY_SCRIPT_VERIFY_FLAGS c) True False \<noteq> Inr ((True, state), [])
    \<longrightarrow> (\<exists>state2 missing2 uncache2 tr2.
           CheckInputs c ops sc chain tx state (worker_view env tx) True
             (MANDATORY_SCRIPT_VERIFY_FLAGS c) True False = Inr ((False, state2), [])
           \<and> AcceptToMemoryPoolWorker c ops cops sc chain env state tx fLimitFree
               pfMissingInputs fOverrideMempoolLimit fRejectAbsurdFee
             = Inr ((False, state2), missing2, uncache2, tr2 @ [Log bug_message])
           \<and> (\<forall>h. PoolAddUnchecked h \<notin> set tr2)))"
proof -
  have one: "AcceptToMemoryPoolWorker c ops cops sc chain env state tx fLimitFree pfMissingInputs
      fOverrideMempoolLimit fRejectAbsurdFee = Inr ((True, state1), missing, uncache, tr)
    \<longrightarrow> CheckInputs c ops sc chain tx state (worker_view env tx) True
           (STANDARD_SCRIPT_VERIFY_FLAGS c) True False = Inr ((True, state), [])
        \<and> CheckInputs c ops sc chain tx state (worker_view env tx) True
            (MANDATORY_SCRIPT_VERIFY_FLAGS c) True False = Inr ((True, state), [])"
  proof
    assume "AcceptToMemoryPoolWorker c ops cops sc chain env state tx fLimitFree pfMissingInputs
      fOverrideMempoolLimit fRejectAbsurdFee = Inr ((True, state1), missing, uncache, tr)"
    from AcceptToMemoryPoolWorker_True [OF this] obtain tr2 where
      "AcceptToMemoryPoolWorker_scripts c ops sc chain env state tx fOverrideMempoolLimit
         = Inr ((True, state1), tr2)" ..
    then show "CheckInputs c ops sc chain tx state (worker_view env tx) True
           (STANDARD_SCRIPT_VERIFY_FLAGS c) True False = Inr ((True, state), [])
        \<and> CheckInputs c ops sc chain tx state (worker_view env tx) True
            (MANDATORY_SCRIPT_VERIFY_FLAGS c) True False = Inr ((True, state), [])"
      by (rule AcceptToMemoryPoolWorker_scripts_True)
  qed
  have two: "reaches_script_checks c ops cops chain env state tx fLimitFree pfMissingInputs
        fRejectAbsurdFee
      \<and> CheckInputs c ops sc chain tx state (worker_view env tx) True
          (STANDARD_SCRIPT_VERIFY_FLAGS c) True False = Inr ((True, state), [])
      \<and> CheckInputs c ops sc chain tx state (worker_view env tx) True
          (MANDATORY_SCRIPT_VERIFY_FLAGS c) True False = Inr ((True, state), [])
      \<and> CalculateMemPoolAncestors env = None
      \<and> (fOverrideMempoolLimit \<or> pool_exists_after_trim env)
    \<longrightarrow> (\<exists>missing2 uncache2 tr2.
           AcceptToMemoryPoolWorker c ops cops sc chain env state tx fLimitFree pfMissingInputs
             fOverrideMempoolLimit fRejectAbsurdFee
           = Inr ((True, state), missing2, uncache2,
                  tr2 @ [TransactionAddedToMempool (GetHash ops tx)])
           \<and> PoolAddUnchecked (GetHash ops tx) \<in> set tr2)"
    using AcceptToMemoryPoolWorker_both_pass [of c ops cops chain env state tx fLimitFree
        pfMissingInputs fRejectAbsurdFee sc fOverrideMempoolLimit]
    by blast
  have three: "reaches_script_checks c ops cops chain env state tx fLimitFree pfMissingInputs
        fRejectAbsurdFee
      \<and> CheckInputs c ops sc chain tx state (worker_view env tx) True
          (STANDARD_SCRIPT_VERIFY_FLAGS c) True False = Inr ((False, state3), pushed)
    \<longrightarrow> (\<exists>missing2 uncache2 tr2.
           AcceptToMemoryPoolWorker c ops cops sc chain env state tx fLimitFree pfMissingInputs
             fOverrideMempoolLimit fRejectAbsurdFee
           = Inr ((False, state3), missing2, uncache2, tr2 @ [Log ''CheckInputs failed for tx''])
           \<and> (\<forall>h. PoolAddUnchecked h \<notin> set tr2))"
    using AcceptToMemoryPoolWorker_first_pass_fails [of c ops cops chain env state tx fLimitFree
        pfMissingInputs fRejectAbsurdFee sc state3 pushed fOverrideMempoolLimit]
    by blast
  have four: "reaches_script_checks c ops cops chain env state tx fLimitFree pfMissingInputs
        fRejectAbsurdFee
      \<and> CheckInputs c ops sc chain tx state (worker_view env tx) True
          (STANDARD_SCRIPT_VERIFY_FLAGS c) True False = Inr ((True, state), [])
      \<and> CheckInputs c ops sc chain tx state (worker_view env tx) True
          (MANDATORY_SCRIPT_VERIFY_FLAGS c) True False \<noteq> Inr ((True, state), [])
    \<longrightarrow> (\<exists>state2 missing2 uncache2 tr2.
           CheckInputs c ops sc chain tx state (worker_view env tx) True
             (MANDATORY_SCRIPT_VERIFY_FLAGS c) True False = Inr ((False, state2), [])
           \<and> AcceptToMemoryPoolWorker c ops cops sc chain env state tx fLimitFree
               pfMissingInputs fOverrideMempoolLimit fRejectAbsurdFee
             = Inr ((False, state2), missing2, uncache2, tr2 @ [Log bug_message])
           \<and> (\<forall>h. PoolAddUnchecked h \<notin> set tr2))"
    using AcceptToMemoryPoolWorker_divergence [of c ops cops chain env state tx fLimitFree
        pfMissingInputs fRejectAbsurdFee sc fOverrideMempoolLimit]
    by blast
  from one two three four show ?thesis
    by (intro conjI)
qed

lemmas example_worker_defs =
  example_mempool_env_def example_spend_def example_txin_def example_tx_ops_def
  example_consts_def example_chain_state_def example_ops_def example_view_def example_coin_def
  example_state_def

lemma example_worker_view:
  "worker_view example_mempool_env (example_spend 40) \<lparr> hash = 7, n = 0 \<rparr>
     = Some (example_coin 50 False 1)"
  by (simp add: worker_view_def cached_inputs_def CCoinsViewMemPool_def example_worker_defs)

lemma example_CheckTxInputs:
  "CheckTxInputs example_consts example_tx_ops (example_chain_state 2) (example_spend 40)
     example_state (worker_view example_mempool_env (example_spend 40)) 3
   = Inr (True, example_state)"
  using example_worker_view
  by (simp add: CheckTxInputs_def HaveInputs_def CheckTxInputs_input_def
      CheckTxInputs_maturity_def CheckTxInputs_balance_def GetSpendHeight_def MoneyRange_def
      example_consts_def example_tx_ops_def example_chain_state_def example_coin_def
      example_spend_def example_txin_def word_sless_alt word_sle_eq)

lemma example_CheckInputs:
  "CheckInputs example_consts example_tx_ops sc (example_chain_state 2)
     (example_spend 40) example_state (worker_view example_mempool_env (example_spend 40))
     True flags True False
   = (case CheckInputs_input example_consts sc (example_spend 40) example_state
             (worker_view example_mempool_env (example_spend 40)) flags True False 0 of
        Inl f \<Rightarrow> Inl f
      | Inr (Return r) \<Rightarrow> Inr (r, [])
      | Inr (Next added) \<Rightarrow> Inr ((True, example_state), added))"
proof -
  have h: "GetSpendHeight (example_chain_state 2) = Inr 3"
    by (simp add: GetSpendHeight_def example_chain_state_def)
  have len: "length (vin (example_spend 40)) = 1"
    by (simp add: example_spend_def)
  have nc: "\<not> IsCoinBase example_tx_ops (example_spend 40)"
    by (simp add: example_tx_ops_def example_spend_def example_txin_def)
  show ?thesis
    using example_CheckTxInputs
    by (simp add: CheckInputs_def h nc len
        CheckInputs_loop.simps [of _ _ _ _ _ _ _ _ 0]
        CheckInputs_loop.simps [of _ _ _ _ _ _ _ _ "Suc 0"]
        split: sum.splits flow.splits)
qed

lemma example_input:
  "prevout (vin (example_spend 40) ! 0) = \<lparr> hash = 7, n = 0 \<rparr>"
  "scriptSig (vin (example_spend 40) ! 0) = []"
  by (simp_all add: example_spend_def example_txin_def)

lemma example_plain_standard:
  "CheckInputs example_consts example_tx_ops example_script_ops (example_chain_state 2)
     (example_spend 40) example_state (worker_view example_mempool_env (example_spend 40))
     True (STANDARD_SCRIPT_VERIFY_FLAGS example_consts) True False
   = Inr ((True, example_state), [])"
  by (subst example_CheckInputs)
     (simp add: CheckInputs_input_def example_input example_worker_view
      example_script_ops_def example_coin_def example_consts_def)

lemma example_lenient_standard:
  "CheckInputs example_consts example_tx_ops example_lenient_script_ops (example_chain_state 2)
     (example_spend 40) example_state (worker_view example_mempool_env (example_spend 40))
     True (STANDARD_SCRIPT_VERIFY_FLAGS example_consts) True False
   = Inr ((True, example_state), [])"
  by (subst example_CheckInputs)
     (simp add: CheckInputs_input_def example_input example_worker_view
      example_lenient_script_ops_def example_coin_def example_consts_def)

lemma example_lenient_mandatory:
  "CheckInputs example_consts example_tx_ops example_lenient_script_ops (example_chain_state 2)
     (example_spend 40) example_state (worker_view example_mempool_env (example_spend 40))
     True (MANDATORY_SCRIPT_VERIFY_FLAGS example_consts) True False
   = Inr (DoS 100 False REJECT_INVALID ''mandatory-script-verify-flag-failed (checksig-not)''
            False example_state, [])"
  by (subst example_CheckInputs)
     (simp add: CheckInputs_input_def example_input example_worker_view
      example_lenient_script_ops_def example_coin_def example_consts_def)


lemma example_early:
  "AcceptToMemoryPoolWorker_early example_consts example_tx_ops example_ops
     (example_chain_state 2) example_mempool_env example_state (example_spend 40) = Inr None"
  by (simp add: AcceptToMemoryPoolWorker_early_def CheckFinalTx_def IsFinalTx_def Height_def
      smax_def Let_def example_worker_defs word_sless_alt word_sle_eq)

lemma example_exist:
  "AcceptToMemoryPoolWorker_exist example_mempool_env (vin (example_spend 40)) (False, [], [])
     = (False, [\<lparr> hash = 7, n = 0 \<rparr>], [ViewHaveCoin \<lparr> hash = 7, n = 0 \<rparr>])"
  by (simp add: CCoinsViewMemPool_def example_worker_defs)

lemma example_sequence_locks:
  "CheckSequenceLocks example_consts example_ops (example_chain_state 2)
     (CCoinsViewMemPool (pcoinsTip example_mempool_env) (mempool_outputs example_mempool_env))
     (example_spend 40) (STANDARD_LOCKTIME_VERIFY_FLAGS example_consts)
     (Some \<lparr> height = 0, time = 0, maxInputBlock = None \<rparr>) False
   = Inr (True, Some \<lparr> height = - 1, time = - 1, maxInputBlock = None \<rparr>, [])"
  by (simp add: CheckSequenceLocks_def CheckSequenceLocks_maxInputHeight_def
      CalculateSequenceLocks_def EvaluateSequenceLocks_def CCoinsViewMemPool_def smax_def
      Let_def example_worker_defs word_sless_alt word_sle_eq word_le_def)

lemma example_fees:
  "AcceptToMemoryPoolWorker_fees example_consts example_tx_ops example_mempool_env example_state
     (example_spend 40) True True 50 tr0
   = Next (tr0 @ [SetMinRelayTxFee, Log ''MempoolBytes LimitFreeRelay FeeCutOff''])"
  by (simp add: AcceptToMemoryPoolWorker_fees_def AcceptToMemoryPoolWorker_limiter_def
      GetLegacySigOpCount_def GetP2SHSigOpCount_def AccessCoin_def example_input
      example_worker_view [simplified example_coin_def] Let_def
      example_worker_defs word_sless_alt word_sle_eq)

lemma example_policy:
  "AcceptToMemoryPoolWorker_policy example_consts example_tx_ops example_ops
     (example_chain_state 2) example_mempool_env example_state (example_spend 40) True True
   = Inr (Next [ViewGetValueIn 1, SetMinRelayTxFee, Log ''MempoolBytes LimitFreeRelay FeeCutOff''])"
proof -
  have v: "GetValueIn example_mempool_env
             (CCoinsViewMemPool (pcoinsTip example_mempool_env) (pool_outputs example_mempool_env))
             (example_spend 40) = 50"
    by (simp add: CCoinsViewMemPool_def AccessCoin_def example_worker_defs)
  have s: "\<not> (fRequireStandard example_mempool_env
               \<and> \<not> AreInputsStandard example_mempool_env (example_spend 40)
                     (worker_view example_mempool_env (example_spend 40)))"
    by (simp add: example_mempool_env_def)
  have g: "GetHash example_tx_ops (example_spend 40) = 1"
    by (simp add: example_tx_ops_def example_spend_def)
  show ?thesis
    unfolding AcceptToMemoryPoolWorker_policy_def Let_def
    by (simp only: example_sequence_locks v example_fees g s) simp
qed

lemma example_reaches:
  "reaches_script_checks example_consts example_tx_ops example_ops (example_chain_state 2)
     example_mempool_env example_state (example_spend 40) True (Some False) True"
  by (simp add: reaches_script_checks_def example_early example_exist example_policy)


lemma example_plain_mandatory:
  "CheckInputs example_consts example_tx_ops example_script_ops (example_chain_state 2)
     (example_spend 40) example_state (worker_view example_mempool_env (example_spend 40))
     True (MANDATORY_SCRIPT_VERIFY_FLAGS example_consts) True False
   = Inr ((True, example_state), [])"
  by (subst example_CheckInputs)
     (simp add: CheckInputs_input_def example_input example_worker_view
      example_script_ops_def example_coin_def example_consts_def)

lemma example_accepted:
  "AcceptToMemoryPoolWorker example_consts example_tx_ops example_ops example_script_ops
     (example_chain_state 2) example_mempool_env example_state (example_spend 40) True
     (Some False) False True
   = Inr ((True, example_state), Some False, [\<lparr> hash = 7, n = 0 \<rparr>],
          [ViewHaveCoin \<lparr> hash = 7, n = 0 \<rparr>, ViewGetValueIn 1, SetMinRelayTxFee,
           Log ''MempoolBytes LimitFreeRelay FeeCutOff'', PoolAddUnchecked 1, PoolExpire,
           PoolTrimToSize, TransactionAddedToMempool 1])"
proof -
  have g: "GetHash example_tx_ops (example_spend 40) = 1"
    by (simp add: example_tx_ops_def example_spend_def)
  have ins: "AcceptToMemoryPoolWorker_insert example_tx_ops example_mempool_env example_state
               (example_spend 40) False
             = ((True, example_state),
                [PoolAddUnchecked 1, PoolExpire, PoolTrimToSize, TransactionAddedToMempool 1])"
    by (simp add: AcceptToMemoryPoolWorker_insert_def LimitMempoolSize_def g
        example_mempool_env_def)
  have "AcceptToMemoryPoolWorker_scripts example_consts example_tx_ops example_script_ops
          (example_chain_state 2) example_mempool_env example_state (example_spend 40) False
        = Inr ((True, example_state),
               [PoolAddUnchecked 1, PoolExpire, PoolTrimToSize, TransactionAddedToMempool 1])"
    by (simp add: AcceptToMemoryPoolWorker_scripts_def example_plain_standard
        example_plain_mandatory ins)
  then show ?thesis
    by (simp add: AcceptToMemoryPoolWorker_def example_early example_exist example_policy)
qed

lemma example_failing_standard:
  "CheckInputs example_consts example_tx_ops example_failing_script_ops (example_chain_state 2)
     (example_spend 40) example_state (worker_view example_mempool_env (example_spend 40))
     True (STANDARD_SCRIPT_VERIFY_FLAGS example_consts) True False
   = Inr (DoS 100 False REJECT_INVALID ''mandatory-script-verify-flag-failed (eval-false)''
            False example_state, [])"
  by (subst example_CheckInputs)
     (simp add: CheckInputs_input_def example_input example_worker_view
      example_failing_script_ops_def example_coin_def example_consts_def)

theorem AcceptToMemoryPoolWorker_two_pass_scripts_witness:
  "CheckInputs example_consts example_tx_ops example_script_ops (example_chain_state 2)
       (example_spend 40) example_state (worker_view example_mempool_env (example_spend 40))
       True (STANDARD_SCRIPT_VERIFY_FLAGS example_consts) True False
     = Inr ((True, example_state), [])
   \<and> CheckInputs example_consts example_tx_ops example_script_ops (example_chain_state 2)
       (example_spend 40) example_state (worker_view example_mempool_env (example_spend 40))
       True (MANDATORY_SCRIPT_VERIFY_FLAGS example_consts) True False
     = Inr ((True, example_state), [])
   \<and> (\<exists>missing2 uncache2 tr2.
         AcceptToMemoryPoolWorker example_consts example_tx_ops example_ops example_script_ops
           (example_chain_state 2) example_mempool_env example_state (example_spend 40) True
           (Some False) False True
         = Inr ((True, example_state), missing2, uncache2, tr2 @ [TransactionAddedToMempool 1])
         \<and> PoolAddUnchecked 1 \<in> set tr2)
   \<and> (\<exists>missing2 uncache2 tr2.
         AcceptToMemoryPoolWorker example_consts example_tx_ops example_ops
           example_failing_script_ops (example_chain_state 2) example_mempool_env example_state
           (example_spend 40) True (Some False) False True
         = Inr ((False,
                 snd (DoS 100 False REJECT_INVALID
                        ''mandatory-script-verify-flag-failed (eval-false)'' False
                        example_state)),
                missing2, uncache2, tr2 @ [Log ''CheckInputs failed for tx''])
         \<and> (\<forall>h. PoolAddUnchecked h \<notin> set tr2))
   \<and> (\<exists>state2 missing2 uncache2 tr2.
         CheckInputs example_consts example_tx_ops example_lenient_script_ops
           (example_chain_state 2) (example_spend 40) example_state
           (worker_view example_mempool_env (example_spend 40))
           True (MANDATORY_SCRIPT_VERIFY_FLAGS example_consts) True False
         = Inr ((False, state2), [])
         \<and> AcceptToMemoryPoolWorker example_consts example_tx_ops example_ops
             example_lenient_script_ops (example_chain_state 2) example_mempool_env
             example_state (example_spend 40) True (Some False) False True
           = Inr ((False, state2), missing2, uncache2, tr2 @ [Log bug_message])
         \<and> (\<forall>h. PoolAddUnchecked h \<notin> set tr2))"
proof -
  let ?view = "worker_view example_mempool_env (example_spend 40)"
  have g: "GetHash example_tx_ops (example_spend 40) = 1"
    by (simp add: example_tx_ops_def example_spend_def)
  have room: "CalculateMemPoolAncestors example_mempool_env = None"
    "False \<or> pool_exists_after_trim example_mempool_env"
    by (simp_all add: example_mempool_env_def)
  from AcceptToMemoryPoolWorker_two_pass_scripts [of example_consts example_tx_ops example_ops
      example_script_ops "example_chain_state 2" example_mempool_env example_state
      "example_spend 40" True "Some False" False True example_state "Some False"
      "[\<lparr> hash = 7, n = 0 \<rparr>]"
      "[ViewHaveCoin \<lparr> hash = 7, n = 0 \<rparr>, ViewGetValueIn 1, SetMinRelayTxFee,
        Log ''MempoolBytes LimitFreeRelay FeeCutOff'', PoolAddUnchecked 1, PoolExpire,
        PoolTrimToSize, TransactionAddedToMempool 1]"]
    example_accepted
  have both: "CheckInputs example_consts example_tx_ops example_script_ops (example_chain_state 2)
       (example_spend 40) example_state ?view
       True (STANDARD_SCRIPT_VERIFY_FLAGS example_consts) True False
     = Inr ((True, example_state), [])
   \<and> CheckInputs example_consts example_tx_ops example_script_ops (example_chain_state 2)
       (example_spend 40) example_state ?view
       True (MANDATORY_SCRIPT_VERIFY_FLAGS example_consts) True False
     = Inr ((True, example_state), [])"
    by blast
  from AcceptToMemoryPoolWorker_two_pass_scripts [of example_consts example_tx_ops example_ops
      example_script_ops "example_chain_state 2" example_mempool_env example_state
      "example_spend 40" True "Some False" False True]
    example_reaches both room
  have "\<exists>missing2 uncache2 tr2.
         AcceptToMemoryPoolWorker example_consts example_tx_ops example_ops example_script_ops
           (example_chain_state 2) example_mempool_env example_state (example_spend 40) True
           (Some False) False True
         = Inr ((True, example_state), missing2, uncache2,
                tr2 @ [TransactionAddedToMempool (GetHash example_tx_ops (example_spend 40))])
         \<and> PoolAddUnchecked (GetHash example_tx_ops (example_spend 40)) \<in> set tr2"
    by blast
  then have admitted: "\<exists>missing2 uncache2 tr2.
         AcceptToMemoryPoolWorker example_consts example_tx_ops example_ops example_script_ops
           (example_chain_state 2) example_mempool_env example_state (example_spend 40) True
           (Some False) False True
         = Inr ((True, example_state), missing2, uncache2, tr2 @ [TransactionAddedToMempool 1])
         \<and> PoolAddUnchecked 1 \<in> set tr2"
    by (simp only: g)
  let ?s3 = "snd (DoS 100 False REJECT_INVALID
                    ''mandatory-script-verify-flag-failed (eval-false)'' False example_state)"
  have fails: "CheckInputs example_consts example_tx_ops example_failing_script_ops
       (example_chain_state 2) (example_spend 40) example_state ?view
       True (STANDARD_SCRIPT_VERIFY_FLAGS example_consts) True False
     = Inr ((False, ?s3), [])"
    by (simp add: example_failing_standard) (simp add: DoS_def Let_def)
  from AcceptToMemoryPoolWorker_two_pass_scripts [of example_consts example_tx_ops example_ops
      example_failing_script_ops "example_chain_state 2" example_mempool_env example_state
      "example_spend 40" True "Some False" False True _ _ _ _ ?s3 "[]"]
    example_reaches fails
  have refused: "\<exists>missing2 uncache2 tr2.
         AcceptToMemoryPoolWorker example_consts example_tx_ops example_ops
           example_failing_script_ops (example_chain_state 2) example_mempool_env example_state
           (example_spend 40) True (Some False) False True
         = Inr ((False, ?s3), missing2, uncache2, tr2 @ [Log ''CheckInputs failed for tx''])
         \<and> (\<forall>h. PoolAddUnchecked h \<notin> set tr2)"
    by blast
  have differ: "CheckInputs example_consts example_tx_ops example_lenient_script_ops
       (example_chain_state 2) (example_spend 40) example_state ?view
       True (MANDATORY_SCRIPT_VERIFY_FLAGS example_consts) True False
     \<noteq> Inr ((True, example_state), [])"
    by (simp add: example_lenient_mandatory) (simp add: DoS_def Let_def example_state_def)
  from AcceptToMemoryPoolWorker_two_pass_scripts [of example_consts example_tx_ops example_ops
      example_lenient_script_ops "example_chain_state 2" example_mempool_env example_state
      "example_spend 40" True "Some False" False True]
    example_reaches example_lenient_standard differ
  have "\<exists>state2 missing2 uncache2 tr2.
         CheckInputs example_consts example_tx_ops example_lenient_script_ops
           (example_chain_state 2) (example_spend 40) example_state ?view
           True (MANDATORY_SCRIPT_VERIFY_FLAGS example_consts) True False
         = Inr ((False, state2), [])
         \<and> AcceptToMemoryPoolWorker example_consts example_tx_ops example_ops
             example_lenient_script_ops (example_chain_state 2) example_mempool_env
             example_state (example_spend 40) True (Some False) False True
           = Inr ((False, state2), missing2, uncache2, tr2 @ [Log bug_message])
         \<and> (\<forall>h. PoolAddUnchecked h \<notin> set tr2)"
    by blast
  with both admitted refused show ?thesis
    by blast
qed

text \<open>
  The claim as first stated also says that the second pass succeeds whenever the first
  does.  That rests on the script interpreter alone, and the worker does not rely on it:
  with the mandatory flags among the standard ones, an interpreter that accepts a script
  only under a non-mandatory flag passes the first run of \<open>CheckInputs\<close> and fails the
  second.
\<close>

theorem AcceptToMemoryPoolWorker_mandatory_pass_counterexample:
  "MANDATORY_SCRIPT_VERIFY_FLAGS example_consts AND STANDARD_SCRIPT_VERIFY_FLAGS example_consts
     = MANDATORY_SCRIPT_VERIFY_FLAGS example_consts
   \<and> CheckInputs example_consts example_tx_ops example_lenient_script_ops (example_chain_state 2)
       (example_spend 40) example_state (worker_view example_mempool_env (example_spend 40))
       True (STANDARD_SCRIPT_VERIFY_FLAGS example_consts) True False
     = Inr ((True, example_state), [])
   \<and> CheckInputs example_consts example_tx_ops example_lenient_script_ops (example_chain_state 2)
       (example_spend 40) example_state (worker_view example_mempool_env (example_spend 40))
       True (MANDATORY_SCRIPT_VERIFY_FLAGS example_consts) True False
     = Inr (DoS 100 False REJECT_INVALID ''mandatory-script-verify-flag-failed (checksig-not)''
              False example_state, [])
   \<and> \<not> fst (DoS 100 False REJECT_INVALID ''mandatory-script-verify-flag-failed (checksig-not)''
              False example_state)"
  by (simp add: example_lenient_standard example_lenient_mandatory DoS_False)
     (simp add: example_consts_def)

end
